theory Spec2Isabelle
  imports Main "HOL-Library.Sublist"
begin

section \<open>JavaScript strings\<close>

text \<open>
  A JavaScript string is a sequence of UTF-16 code units; \<open>length\<close>, \<open>includes\<close>,
  \<open>trim\<close>, \<open>split\<close> and the regular expressions of the sources (none has the
  \<open>u\<close> flag) all work on code units. A string is modelled as the list of its code
  units, each a natural number below 65536. ASCII literals are written \<open>asc ''...''\<close>,
  other literals as explicit code units, with the text in a comment.
\<close>

type_synonym jstring = "nat list"

abbreviation (input) asc :: "string \<Rightarrow> jstring" where
  "asc s \<equiv> map of_char s"

text \<open>The class \<open>\s\<close> of a regular expression, which is also what \<open>trim\<close> removes:
  TAB, LF, VT, FF, CR, SP, NBSP, U+1680, U+2000..U+200A, LS, PS, U+202F, U+205F, U+3000, BOM.\<close>

definition is_space :: "nat \<Rightarrow> bool" where
  "is_space c \<longleftrightarrow>
     c = 9 \<or> c = 10 \<or> c = 11 \<or> c = 12 \<or> c = 13 \<or> c = 32 \<or> c = 160 \<or> c = 5760 \<or>
     (8192 \<le> c \<and> c \<le> 8202) \<or> c = 8232 \<or> c = 8233 \<or> c = 8239 \<or> c = 8287 \<or>
     c = 12288 \<or> c = 65279"

text \<open>The dot of a regular expression (no \<open>s\<close> flag) matches every code unit but the
  line terminators LF, CR, LS and PS.\<close>

definition is_line_terminator :: "nat \<Rightarrow> bool" where
  "is_line_terminator c \<longleftrightarrow> c = 10 \<or> c = 13 \<or> c = 8232 \<or> c = 8233"

definition is_digit :: "nat \<Rightarrow> bool" where
  "is_digit c \<longleftrightarrow> 48 \<le> c \<and> c \<le> 57"

text \<open>\<open>s.trim()\<close>\<close>

definition trim :: "jstring \<Rightarrow> jstring" where
  "trim s = rev (dropWhile is_space (rev (dropWhile is_space s)))"

text \<open>\<open>s.split(d)\<close> for a separator of one code unit: the result is never empty,
  the empty string gives one empty piece. (The last case of the \<open>case\<close> cannot occur.)\<close>

fun split_on :: "nat \<Rightarrow> jstring \<Rightarrow> jstring list" where
  "split_on d [] = [[]]"
| "split_on d (c # cs) =
     (if c = d then [] # split_on d cs
      else (case split_on d cs of l # ls \<Rightarrow> (c # l) # ls | [] \<Rightarrow> [[c]]))"

text \<open>\<open>xs.join(sep)\<close>\<close>

fun join :: "jstring \<Rightarrow> jstring list \<Rightarrow> jstring" where
  "join sep [] = []"
| "join sep [l] = l"
| "join sep (l # ls) = l @ sep @ join sep ls"

text \<open>\<open>s.includes(k)\<close>: scan the positions of \<open>s\<close> from the left for one where
  \<open>k\<close> starts.\<close>

fun includes_js :: "jstring \<Rightarrow> jstring \<Rightarrow> bool" where
  "includes_js [] k = (k = [])"
| "includes_js (c # cs) k = (prefix k (c # cs) \<or> includes_js cs k)"

text \<open>\<open>text.replace(/\s/g, '').length\<close> (countCharacters of article-generator.ts, and
  written inline in both loaders)\<close>

definition countCharacters :: "jstring \<Rightarrow> nat" where
  "countCharacters text = length (filter (\<lambda>c. \<not> is_space c) text)"

section \<open>Feedback commands (regenerate-article.ts)\<close>

definition commands :: "jstring list" where
  "commands = [asc ''/regenerate'', asc ''/shorter'', asc ''/longer'', asc ''/casual'',
               asc ''/formal'', asc ''/publish'']"

text \<open>The loop \<open>for (const cmd of commands) if (body.includes(cmd)) return cmd\<close>;
  \<open>undefined\<close> is \<open>None\<close>.\<close>

fun first_included :: "jstring \<Rightarrow> jstring list \<Rightarrow> jstring option" where
  "first_included body [] = None"
| "first_included body (cmd # cmds) =
     (if includes_js body cmd then Some cmd else first_included body cmds)"

definition parseCommand :: "jstring \<Rightarrow> jstring option" where
  "parseCommand body = first_included body commands"

section \<open>Request Extractor (services/github.ts)\<close>

datatype Tone = Casual | Business | Technical

text \<open>The issue as the tracker supplies it; a \<open>null\<close> body is \<open>None\<close>.\<close>

record GitHubIssue =
  issue_number :: nat
  issue_title :: jstring
  issue_body :: "jstring option"
  issue_labels :: "jstring list"

text \<open>Every field but \<open>theme\<close> is optional in types/article.ts: \<open>None\<close> is a field
  that is not set.\<close>

record ArticleRequest =
  theme :: jstring
  req_targetAudience :: "jstring option"
  req_tone :: "Tone option"
  targetLength :: "nat option"
  additionalInstructions :: "jstring option"
  references :: "jstring list option"

text \<open>
  \<open>line.match(/^##\s+(.+)$/)\<close>, giving the capture. The line holds no LF (it comes
  from \<open>split('\n')\<close>) and the expression has no \<open>m\<close> flag, so \<open>$\<close> is the end of
  the line. After \<open>##\<close> the greedy \<open>\s+\<close> takes the whole run of white space; the
  capture is what follows, which must be free of line terminators up to the end. When
  nothing follows, the expression backtracks one white space character, which becomes
  the capture if the dot accepts it.
\<close>

definition section_match :: "jstring \<Rightarrow> jstring option" where
  "section_match line =
     (if prefix (asc ''##'') line then
        (let rest = drop 2 line;
             w = takeWhile is_space rest;
             r = dropWhile is_space rest
         in if w = [] then None
            else if r \<noteq> [] then
              (if list_ex is_line_terminator r then None else Some r)
            else if 2 \<le> length w \<and> \<not> is_line_terminator (last w) then Some [last w]
            else None)
      else None)"

text \<open>
  \<open>sections\<close> is a plain object used as a dictionary. The keys the extractor reads are
  fixed literals, none a property of \<open>Object.prototype\<close>, so a map gives what the reads
  give. An assignment to the key \<open>__proto__\<close> with a string value is ignored by the
  prototype setter and stores nothing.
\<close>

type_synonym sections = "jstring \<rightharpoonup> jstring"

definition store :: "sections \<Rightarrow> jstring \<Rightarrow> jstring \<Rightarrow> sections" where
  "store secs k v = (if k = asc ''__proto__'' then secs else secs(k \<mapsto> v))"

text \<open>\<open>if (currentSection) sections[currentSection] = currentContent.join('\n').trim()\<close>,
  which the source runs at every heading and once after the loop.\<close>

definition save_section :: "sections \<Rightarrow> jstring \<Rightarrow> jstring list \<Rightarrow> sections" where
  "save_section secs cur content =
     (if cur \<noteq> [] then store secs cur (trim (join [10] content)) else secs)"

text \<open>The loop of parseIssueSections over the lines, with its three variables
  \<open>sections\<close>, \<open>currentSection\<close> and \<open>currentContent\<close>.\<close>

fun sections_loop ::
  "jstring list \<Rightarrow> sections \<Rightarrow> jstring \<Rightarrow> jstring list \<Rightarrow> sections \<times> jstring \<times> jstring list" where
  "sections_loop [] secs cur content = (secs, cur, content)"
| "sections_loop (line # ls) secs cur content =
     (case section_match line of
        Some name \<Rightarrow> sections_loop ls (save_section secs cur content) (trim name) []
      | None \<Rightarrow>
          if cur \<noteq> [] then sections_loop ls secs cur (content @ [line])
          else sections_loop ls secs cur content)"

definition parseIssueSections :: "jstring \<Rightarrow> sections" where
  "parseIssueSections body =
     (case sections_loop (split_on 10 body) Map.empty [] [] of
        (secs, cur, content) \<Rightarrow> save_section secs cur content)"

text \<open>\<open>/https?:\/\/[^\s)>\]]+/g\<close>: the characters that end a URL are white space and
  the three closing delimiters \<open>)\<close>, \<open>>\<close> and \<open>]\<close>.\<close>

definition url_stop :: "nat \<Rightarrow> bool" where
  "url_stop c \<longleftrightarrow> is_space c \<or> c = 41 \<or> c = 62 \<or> c = 93"

text \<open>One attempt of the expression at the start of \<open>s\<close>: the match and the text after
  it. The run after the scheme is greedy and must hold at least one character.\<close>

definition url_at :: "jstring \<Rightarrow> (jstring \<times> jstring) option" where
  "url_at s =
     (let n = (if prefix (asc ''https://'') s then Some 8
               else if prefix (asc ''http://'') s then Some (7::nat)
               else None)
      in case n of
           None \<Rightarrow> None
         | Some n \<Rightarrow>
             (let run = takeWhile (\<lambda>c. \<not> url_stop c) (drop n s)
              in if run = [] then None
                 else Some (take n s @ run, dropWhile (\<lambda>c. \<not> url_stop c) (drop n s))))"

text \<open>\<open>body.match(urlPattern)\<close> with the \<open>g\<close> flag: all matches from left to right,
  the search resuming after each match.\<close>

function match_all_urls :: "jstring \<Rightarrow> jstring list" where
  "match_all_urls [] = []"
| "match_all_urls (c # cs) =
     (case url_at (c # cs) of
        Some (u, rest) \<Rightarrow> u # match_all_urls rest
      | None \<Rightarrow> match_all_urls cs)"
  by pat_completeness auto
termination
proof (relation "measure length")
  show "wf (measure length)" by simp
next
  fix c cs x2 u rest
  assume "url_at (c # cs) = Some x2" "(u, rest) = x2"
  then have "rest = dropWhile (\<lambda>c. \<not> url_stop c) (drop 8 (c # cs))
      \<or> rest = dropWhile (\<lambda>c. \<not> url_stop c) (drop 7 (c # cs))"
    by (auto simp: url_at_def Let_def split: if_splits)
  moreover have "length (dropWhile (\<lambda>c. \<not> url_stop c) (drop 8 (c # cs))) < length (c # cs)"
    using length_dropWhile_le [of "\<lambda>c. \<not> url_stop c" "drop 8 (c # cs)"] by simp
  moreover have "length (dropWhile (\<lambda>c. \<not> url_stop c) (drop 7 (c # cs))) < length (c # cs)"
    using length_dropWhile_le [of "\<lambda>c. \<not> url_stop c" "drop 7 (c # cs)"] by simp
  ultimately show "(rest, c # cs) \<in> measure length" by auto
next
  fix c cs
  show "(cs, c # cs) \<in> measure length" by simp
qed

text \<open>\<open>matches || []\<close>: no match is \<open>null\<close>, which becomes the empty list.\<close>

definition extractReferences :: "jstring \<Rightarrow> jstring list" where
  "extractReferences body = match_all_urls body"

text \<open>\<open>a || b\<close> on values that are a string or \<open>undefined\<close>: the empty string is falsy
  as \<open>undefined\<close> is.\<close>

definition or_js :: "jstring option \<Rightarrow> jstring option \<Rightarrow> jstring option" where
  "or_js a b = (case a of Some v \<Rightarrow> if v \<noteq> [] then Some v else b | None \<Rightarrow> b)"

definition or_str :: "jstring option \<Rightarrow> jstring \<Rightarrow> jstring" where
  "or_str a d = (case a of Some v \<Rightarrow> if v \<noteq> [] then v else d | None \<Rightarrow> d)"

text \<open>\<open>text.match(/(\d+)/)\<close>: the first run of decimal digits.\<close>

definition first_digits :: "jstring \<Rightarrow> jstring option" where
  "first_digits s =
     (case dropWhile (\<lambda>c. \<not> is_digit c) s of
        [] \<Rightarrow> None
      | r \<Rightarrow> Some (takeWhile is_digit r))"

text \<open>\<open>parseInt(ds, 10)\<close> on a string of decimal digits. (JavaScript numbers are
  doubles: beyond \<open>2^53\<close> the value is rounded, which no claim here depends on.)\<close>

definition parseInt10 :: "jstring \<Rightarrow> nat" where
  "parseInt10 ds = foldl (\<lambda>a c. 10 * a + (c - 48)) 0 ds"

text \<open>\<open>title.replace(/^\<dots>[:\<dots>]\s*/, '')\<close>, the label being the four code units
  U+8A18 U+4E8B U+4F5C U+6210 ("article creation" in Japanese), followed by an ASCII
  colon (58) or a full-width colon U+FF1A (65306), and any white space after it.\<close>

definition title_label :: jstring where
  "title_label = [35352, 20107, 20316, 25104]"

definition strip_title_label :: "jstring \<Rightarrow> jstring" where
  "strip_title_label t =
     (if prefix (title_label @ [58]) t \<or> prefix (title_label @ [65306]) t
      then dropWhile is_space (drop 5 t)
      else t)"

text \<open>The section names, as code units: U+30C6 U+30FC U+30DE (theme), U+30C8 U+30FC U+30F3
  (tone), U+6587 U+5B57 U+6570 (length), U+30BF U+30FC U+30B2 U+30C3 U+30C8 U+8AAD U+8005
  (target readers), U+8FFD U+52A0 U+6307 U+793A (additional instructions) and
  U+53C2 U+8003 U+306B U+3057 U+3066 U+307B U+3057 U+3044 U+3053 U+3068 (what to refer to);
  the tone keywords U+30D3 U+30B8 U+30CD U+30B9 (business) and U+6280 U+8853 (technology).\<close>

definition sec_theme :: jstring where "sec_theme = [12486, 12540, 12510]"
definition sec_tone :: jstring where "sec_tone = [12488, 12540, 12531]"
definition sec_length :: jstring where "sec_length = [25991, 23383, 25968]"
definition sec_target :: jstring where
  "sec_target = [12479, 12540, 12466, 12483, 12488, 35501, 32773]"
definition sec_extra :: jstring where "sec_extra = [36861, 21152, 25351, 31034]"
definition sec_refer :: jstring where
  "sec_refer = [21442, 32771, 12395, 12375, 12390, 12411, 12375, 12356, 12371, 12392]"
definition kw_business :: jstring where "kw_business = [12499, 12472, 12493, 12473]"
definition kw_technical :: jstring where "kw_technical = [25216, 34899]"

text \<open>The constants \<open>toneText\<close>, \<open>tone\<close>, \<open>lengthText\<close> and \<open>targetLength\<close> of
  parseIssueToArticleRequest.\<close>

definition toneText :: "sections \<Rightarrow> jstring" where
  "toneText secs = or_str (or_js (secs sec_tone) (secs (asc ''tone''))) []"

definition tone_of_text :: "jstring \<Rightarrow> Tone" where
  "tone_of_text t =
     (if includes_js t kw_business \<or> includes_js t (asc ''business'') then Business
      else if includes_js t kw_technical \<or> includes_js t (asc ''technical'') then Technical
      else Casual)"

definition lengthText :: "sections \<Rightarrow> jstring" where
  "lengthText secs = or_str (or_js (secs sec_length) (secs (asc ''length''))) []"

definition length_of_text :: "jstring \<Rightarrow> nat" where
  "length_of_text t = (case first_digits t of Some ds \<Rightarrow> parseInt10 ds | None \<Rightarrow> 2000)"

text \<open>\<open>issue.body || ''\<close>\<close>

definition body_text :: "GitHubIssue \<Rightarrow> jstring" where
  "body_text issue = (case issue_body issue of Some b \<Rightarrow> b | None \<Rightarrow> [])"

definition parseIssueToArticleRequest :: "GitHubIssue \<Rightarrow> ArticleRequest" where
  "parseIssueToArticleRequest issue =
     (let body = body_text issue;
          secs = parseIssueSections body
      in \<lparr> theme = or_str (or_js (secs sec_theme) (secs (asc ''theme'')))
                      (strip_title_label (issue_title issue)),
           req_targetAudience = Some (or_str (or_js (secs sec_target) (secs (asc ''target''))) []),
           req_tone = Some (tone_of_text (toneText secs)),
           targetLength = Some (length_of_text (lengthText secs)),
           additionalInstructions = Some (or_str (or_js (secs sec_extra) (secs sec_refer)) []),
           references = Some (extractReferences body) \<rparr>)"

section \<open>Articles (types/article.ts)\<close>

text \<open>\<open>issueNumber\<close> and \<open>wordCount\<close> are non-negative integers. \<open>generatedAt\<close> is a
  \<open>Date\<close>; the only use the modelled code makes of it is \<open>toISOString()\<close>, so the field
  holds that text.\<close>

record ArticleMetadata =
  issueNumber :: nat
  tone :: jstring
  targetAudience :: jstring
  suggestedTags :: "jstring list"

record GeneratedArticle =
  title :: jstring
  content :: jstring
  summary :: jstring
  wordCount :: nat
  generatedAt :: jstring
  metadata :: ArticleMetadata

record FeedbackRequest =
  feedback :: jstring
  command :: "jstring option"
  originalArticle :: GeneratedArticle

text \<open>The two errors the modelled code throws: \<open>Error('No text content in response')\<close>
  and \<open>Error('Invalid article format')\<close>.\<close>

datatype error = NoTextContent | InvalidArticleFormat

section \<open>Article generator (agents/article-generator.ts)\<close>

text \<open>
  The generation service is outside the program. Each call to it is modelled by its
  answer, a list of content blocks, given as a parameter: what is proved holds for every
  answer, hence for the one the service gives to the prompt the code builds. The prompt
  builders (\<open>buildUserPrompt\<close>, \<open>getToneInstructions\<close>) only feed the service and are not
  modelled. \<open>new Date()\<close> is the parameter \<open>now\<close>.
\<close>

datatype ContentBlock = TextBlock jstring | OtherBlock

fun extractTextContent :: "ContentBlock list \<Rightarrow> error + jstring" where
  "extractTextContent [] = Inl NoTextContent"
| "extractTextContent (TextBlock t # bs) = Inr t"
| "extractTextContent (OtherBlock # bs) = extractTextContent bs"

text \<open>\<open>line.replace(/^#\s+/, '')\<close>: a leading \<open>#\<close> with the white space after it, which
  must be there.\<close>

definition strip_heading_mark :: "jstring \<Rightarrow> jstring" where
  "strip_heading_mark line =
     (case line of
        [] \<Rightarrow> line
      | c # rest \<Rightarrow>
          if c = 35 \<and> takeWhile is_space rest \<noteq> [] then dropWhile is_space rest else line)"

text \<open>\<open>line.replace(/^#+\s*/, '')\<close>: the leading \<open>#\<close> characters, at least one, and any
  white space after them.\<close>

definition strip_hashes :: "jstring \<Rightarrow> jstring" where
  "strip_hashes line =
     (if prefix [35] line then dropWhile is_space (dropWhile (\<lambda>c. c = 35) line) else line)"

text \<open>The \<open>for\<close> loop of parseArticleContent from index \<open>i\<close> on: at the first line that
  starts with \<open>"# "\<close> once trimmed, the new \<open>title\<close> and \<open>bodyStartIndex\<close>; \<open>None\<close> when
  the loop ends without \<open>break\<close>.\<close>

fun find_heading :: "jstring list \<Rightarrow> nat \<Rightarrow> (jstring \<times> nat) option" where
  "find_heading [] i = None"
| "find_heading (l # ls) i =
     (if prefix (asc ''# '') (trim l) then Some (strip_heading_mark (trim l), i + 1)
      else find_heading ls (i + 1))"

definition parseArticleContent :: "jstring \<Rightarrow> jstring \<times> jstring" where
  "parseArticleContent text =
     (let lines = split_on 10 (trim text);
          (title1, start1) = (case find_heading lines 0 of Some r \<Rightarrow> r | None \<Rightarrow> ([], 0));
          (title2, start2) =
             (case lines of
                l0 # _ \<Rightarrow> if title1 = [] then (strip_hashes l0, 1) else (title1, start1)
              | [] \<Rightarrow> (title1, start1))
      in (title2, trim (join [10] (drop start2 lines))))"

text \<open>The names of the tones, and the default audience U+4E00 U+822C U+8AAD U+8005
  ("general readers").\<close>

fun tone_name :: "Tone \<Rightarrow> jstring" where
  "tone_name Casual = asc ''casual''"
| "tone_name Business = asc ''business''"
| "tone_name Technical = asc ''technical''"

definition default_audience :: jstring where
  "default_audience = [19968, 33324, 35501, 32773]"

text \<open>\<open>text.split(',').map((tag) => tag.trim()).filter(Boolean)\<close> of suggestTags\<close>

definition parse_tags :: "jstring \<Rightarrow> jstring list" where
  "parse_tags text = filter (\<lambda>t. t \<noteq> []) (map trim (split_on 44 text))"

text \<open>generateArticle, given the answers to its three calls in the order it makes them:
  the article text, the summary (generateSummary) and the tags (suggestTags).\<close>

definition generateArticle ::
  "ArticleRequest \<Rightarrow> ContentBlock list \<Rightarrow> ContentBlock list \<Rightarrow> ContentBlock list \<Rightarrow> jstring
     \<Rightarrow> error + GeneratedArticle" where
  "generateArticle request response summaryResponse tagsResponse now =
     (case extractTextContent response of
        Inl e \<Rightarrow> Inl e
      | Inr text \<Rightarrow>
          (case parseArticleContent text of
             (t, body) \<Rightarrow>
               (case extractTextContent summaryResponse of
                  Inl e \<Rightarrow> Inl e
                | Inr summ \<Rightarrow>
                    (case extractTextContent tagsResponse of
                       Inl e \<Rightarrow> Inl e
                     | Inr tagText \<Rightarrow>
                         Inr \<lparr> title = t, content = body, summary = summ,
                               wordCount = countCharacters body, generatedAt = now,
                               metadata = \<lparr> issueNumber = 0,
                                 tone = tone_name (case req_tone request of Some x \<Rightarrow> x | None \<Rightarrow> Casual),
                                 targetAudience = or_str (req_targetAudience request) default_audience,
                                 suggestedTags = parse_tags tagText \<rparr> \<rparr>))))"

text \<open>regenerateWithFeedback, given the answers to its two calls. The metadata is the
  spread \<open>{...request.originalArticle.metadata}\<close>.\<close>

definition regenerateWithFeedback ::
  "FeedbackRequest \<Rightarrow> ContentBlock list \<Rightarrow> ContentBlock list \<Rightarrow> jstring
     \<Rightarrow> error + GeneratedArticle" where
  "regenerateWithFeedback request response summaryResponse now =
     (case extractTextContent response of
        Inl e \<Rightarrow> Inl e
      | Inr text \<Rightarrow>
          (case parseArticleContent text of
             (t, body) \<Rightarrow>
               (case extractTextContent summaryResponse of
                  Inl e \<Rightarrow> Inl e
                | Inr summ \<Rightarrow>
                    Inr \<lparr> title = t, content = body, summary = summ,
                          wordCount = countCharacters body, generatedAt = now,
                          metadata = metadata (originalArticle request) \<rparr>)))"

text \<open>The two lines of \<open>main\<close> in regenerate-article.ts that call regenerateWithFeedback
  and then assign \<open>newArticle.metadata.issueNumber = originalArticle.metadata.issueNumber\<close>.\<close>

definition regenerate_main ::
  "FeedbackRequest \<Rightarrow> ContentBlock list \<Rightarrow> ContentBlock list \<Rightarrow> jstring
     \<Rightarrow> error + GeneratedArticle" where
  "regenerate_main request response summaryResponse now =
     (case regenerateWithFeedback request response summaryResponse now of
        Inl e \<Rightarrow> Inl e
      | Inr newArticle \<Rightarrow>
          Inr (newArticle\<lparr> metadata := (metadata newArticle)
                 \<lparr> issueNumber := issueNumber (metadata (originalArticle request)) \<rparr> \<rparr>))"

section \<open>Article documents (services/note-api.ts and the two loaders)\<close>

text \<open>A number in a template literal: the decimal digits of a non-negative integer
  (as JavaScript prints it below \<open>10^21\<close>).\<close>

fun show_nat :: "nat \<Rightarrow> jstring" where
  "show_nat n = (if n < 10 then [48 + n] else show_nat (n div 10) @ [48 + n mod 10])"

declare show_nat.simps [simp del]

text \<open>\<open>s.replace(/"/g, '\\"')\<close>: a backslash before every double quote.\<close>

definition escape_quotes :: "jstring \<Rightarrow> jstring" where
  "escape_quotes s = concat (map (\<lambda>c. if c = 34 then [92, 34] else [c]) s)"

text \<open>The footer line: an asterisk, the sentence U+3053 U+306E U+8A18 U+4E8B U+306F
  "AI" U+306B U+3088 U+3063 U+3066 U+751F U+6210 U+3055 U+308C U+307E U+3057 U+305F U+3002
  ("this article was generated by AI."), an asterisk.\<close>

definition footer_start :: jstring where
  "footer_start = [42, 12371, 12398, 35352, 20107, 12399]"

definition footer_line :: jstring where
  "footer_line = footer_start
     @ [65, 73, 12395, 12424, 12387, 12390, 29983, 25104, 12373, 12428, 12414, 12375, 12383, 12290, 42]"

text \<open>The header block of saveArticleAsMarkdown, one line per key, without the two
  delimiter lines.\<close>

definition header_lines :: "GeneratedArticle \<Rightarrow> jstring list" where
  \<open>header_lines a =
     [asc ''title: "'' @ title a @ asc ''"'',
      asc ''summary: "'' @ escape_quotes (summary a) @ asc ''"'',
      asc ''tags: ['' @ join (asc '', '') (map (\<lambda>t. [34] @ t @ [34]) (suggestedTags (metadata a)))
        @ asc '']'',
      asc ''issueNumber: '' @ show_nat (issueNumber (metadata a)),
      asc ''generatedAt: "'' @ generatedAt a @ asc ''"'',
      asc ''wordCount: '' @ show_nat (wordCount a),
      asc ''tone: "'' @ tone (metadata a) @ asc ''"'',
      asc ''targetAudience: "'' @ targetAudience (metadata a) @ asc ''"'']\<close>

text \<open>The text saveArticleAsMarkdown writes to the file (the template literal). The
  file's path, made of the date and a slug of the title, plays no part in what is read
  back and is not modelled.\<close>

definition saveArticleAsMarkdown :: "GeneratedArticle \<Rightarrow> jstring" where
  "saveArticleAsMarkdown a =
     asc ''---\<newline>'' @ join [10] (header_lines a) @ asc ''\<newline>---\<newline>''
     @ asc ''\<newline># '' @ title a @ asc ''\<newline>\<newline>''
     @ content a @ asc ''\<newline>\<newline>---\<newline>\<newline>'' @ footer_line @ [10]"

text \<open>The first occurrence of \<open>d\<close> in a text: the text before it and the text after it.\<close>

fun split_at_first :: "jstring \<Rightarrow> jstring \<Rightarrow> (jstring \<times> jstring) option" where
  "split_at_first d [] = (if d = [] then Some ([], []) else None)"
| "split_at_first d (c # cs) =
     (if prefix d (c # cs) then Some ([], drop (length d) (c # cs))
      else (case split_at_first d cs of
              Some (a, b) \<Rightarrow> Some (c # a, b)
            | None \<Rightarrow> None))"

text \<open>\<open>content.match(/^---\n([\s\S]*?)\n---\n([\s\S]*)$/)\<close>, giving the front matter and
  the body: the text must start with \<open>---\<close> and a line feed; the lazy first group ends
  at the first \<open>\n---\n\<close> after that; the second group is the rest.\<close>

definition frontmatter_match :: "jstring \<Rightarrow> (jstring \<times> jstring) option" where
  "frontmatter_match text =
     (if prefix (asc ''---\<newline>'') text then split_at_first (asc ''\<newline>---\<newline>'') (drop 4 text)
      else None)"

text \<open>After a key, the greedy \<open>(.*)\<close> followed by the closing character: the dot stays
  on the line, so the capture runs to the last closing character before the next line
  terminator; \<open>None\<close> if there is none.\<close>

definition capture_to_last :: "nat \<Rightarrow> jstring \<Rightarrow> jstring option" where
  "capture_to_last close rest =
     (let line = takeWhile (\<lambda>c. \<not> is_line_terminator c) rest
      in if close \<in> set line then Some (rev (tl (dropWhile (\<lambda>c. c \<noteq> close) (rev line))))
         else None)"

text \<open>\<open>frontmatter.match(/key(.*)close/)?.[1]\<close> for a literal key and a closing
  character: the leftmost position where the key stands and the rest of the expression
  matches.\<close>

fun match_field :: "jstring \<Rightarrow> nat \<Rightarrow> jstring \<Rightarrow> jstring option" where
  "match_field key close [] = None"
| "match_field key close (c # cs) =
     (if prefix key (c # cs) then
        (case capture_to_last close (drop (length key) (c # cs)) of
           Some v \<Rightarrow> Some v
         | None \<Rightarrow> match_field key close cs)
      else match_field key close cs)"

text \<open>\<open>frontmatter.match(/key(\d+)/)?.[1]\<close>: the leftmost position where the key stands
  with a digit after it, and the run of digits there.\<close>

fun match_digits :: "jstring \<Rightarrow> jstring \<Rightarrow> jstring option" where
  "match_digits key [] = None"
| "match_digits key (c # cs) =
     (if prefix key (c # cs) \<and> takeWhile is_digit (drop (length key) (c # cs)) \<noteq> []
      then Some (takeWhile is_digit (drop (length key) (c # cs)))
      else match_digits key cs)"

text \<open>\<open>body.replace(/^# .*\n\n/, '')\<close>: without the \<open>m\<close> flag the heading must open the
  body; the line must be followed by an empty line.\<close>

definition strip_title_line :: "jstring \<Rightarrow> jstring" where
  "strip_title_line body =
     (if prefix (asc ''# '') body then
        (let rest = dropWhile (\<lambda>c. \<not> is_line_terminator c) (drop 2 body)
         in if prefix [10, 10] rest then drop 2 rest else body)
      else body)"

text \<open>\<open>s.replace(/\n---\n\n\*<footer start>.*$/, '')\<close>: without the \<open>m\<close> flag \<open>$\<close> is
  the end of the text, so the match is the leftmost place where the marker stands with
  no line terminator after it up to the end; everything from there on is removed.\<close>

definition footer_marker :: jstring where
  "footer_marker = asc ''\<newline>---\<newline>\<newline>'' @ footer_start"

fun strip_footer :: "jstring \<Rightarrow> jstring" where
  "strip_footer [] = []"
| "strip_footer (c # cs) =
     (if prefix footer_marker (c # cs)
         \<and> \<not> list_ex is_line_terminator (drop (length footer_marker) (c # cs))
      then []
      else c # strip_footer cs)"

text \<open>The fields both loaders read from the front matter.\<close>

definition field_title :: "jstring \<Rightarrow> jstring" where
  \<open>field_title fm = or_str (match_field (asc ''title: "'') 34 fm) []\<close>

definition field_summary :: "jstring \<Rightarrow> jstring" where
  \<open>field_summary fm = or_str (match_field (asc ''summary: "'') 34 fm) []\<close>

definition field_issueNumber :: "jstring \<Rightarrow> nat" where
  "field_issueNumber fm = parseInt10 (or_str (match_digits (asc ''issueNumber: '') fm) (asc ''0''))"

definition field_tone :: "jstring \<Rightarrow> jstring" where
  \<open>field_tone fm = or_str (match_field (asc ''tone: "'') 34 fm) (asc ''casual'')\<close>

definition field_targetAudience :: "jstring \<Rightarrow> jstring" where
  \<open>field_targetAudience fm = or_str (match_field (asc ''targetAudience: "'') 34 fm) []\<close>

text \<open>loadArticle of regenerate-article.ts, on the text of the file.\<close>

definition loadArticle_regenerate :: "jstring \<Rightarrow> jstring \<Rightarrow> error + GeneratedArticle" where
  "loadArticle_regenerate text now =
     (case frontmatter_match text of
        None \<Rightarrow> Inl InvalidArticleFormat
      | Some (frontmatter, body) \<Rightarrow>
          (let contentBody = strip_footer (strip_title_line body)
           in Inr \<lparr> title = field_title frontmatter,
                    content = trim contentBody,
                    summary = field_summary frontmatter,
                    wordCount = countCharacters contentBody,
                    generatedAt = now,
                    metadata = \<lparr> issueNumber = field_issueNumber frontmatter,
                      tone = field_tone frontmatter,
                      targetAudience = field_targetAudience frontmatter,
                      suggestedTags = [] \<rparr> \<rparr>))"

text \<open>\<open>lines[0].replace(/^#\s*/, '')\<close>\<close>

definition strip_hash :: "jstring \<Rightarrow> jstring" where
  "strip_hash line = (if prefix [35] line then dropWhile is_space (tl line) else line)"

text \<open>\<open>tagsMatch[1].split(',').map((t) => t.trim().replace(/"/g, ''))\<close>\<close>

definition field_tags :: "jstring \<Rightarrow> jstring list" where
  "field_tags fm =
     (case match_field (asc ''tags: ['') 93 fm of
        Some m \<Rightarrow> map (\<lambda>t. filter (\<lambda>c. c \<noteq> 34) (trim t)) (split_on 44 m)
      | None \<Rightarrow> [])"

text \<open>loadArticle of the export workflow (the second unnamed source file), on the text
  of the file. It does not throw: without front matter it returns the degraded parse.\<close>

definition loadArticle_export :: "jstring \<Rightarrow> jstring \<Rightarrow> GeneratedArticle" where
  "loadArticle_export text now =
     (case frontmatter_match text of
        None \<Rightarrow>
          \<lparr> title = strip_hash (case split_on 10 text of l0 # _ \<Rightarrow> l0 | [] \<Rightarrow> []),
            content = text,
            summary = [],
            wordCount = countCharacters text,
            generatedAt = now,
            metadata = \<lparr> issueNumber = 0, tone = asc ''casual'', targetAudience = [],
                         suggestedTags = [] \<rparr> \<rparr>
      | Some (frontmatter, body) \<Rightarrow>
          \<lparr> title = field_title frontmatter,
            content = trim body,
            summary = field_summary frontmatter,
            wordCount = countCharacters (trim body),
            generatedAt = now,
            metadata = \<lparr> issueNumber = field_issueNumber frontmatter,
              tone = field_tone frontmatter,
              targetAudience = field_targetAudience frontmatter,
              suggestedTags = field_tags frontmatter \<rparr> \<rparr>)"

section \<open>Notions used to state the claims\<close>

text \<open>The text made of gaps and matches in turn, \<open>g0 m1 g1 m2 \<dots> mn gn\<close>: how a list of
  matches lies in the text they were found in.\<close>

fun weave :: "jstring list \<Rightarrow> jstring list \<Rightarrow> jstring" where
  "weave [] ms = []"
| "weave (g # gs) [] = g"
| "weave (g # gs) (m # ms) = g @ m @ weave gs ms"

text \<open>Following the words of the specification, not the source: a character of a URL's
  run is "non-whitespace, non-bracket, non-parenthesis", brackets being square, angle
  and curly ones, opening or closing.\<close>

definition spec_url_char :: "nat \<Rightarrow> bool" where
  "spec_url_char c \<longleftrightarrow>
     \<not> is_space c \<and> c \<noteq> 40 \<and> c \<noteq> 41 \<and> c \<noteq> 60 \<and> c \<noteq> 62 \<and> c \<noteq> 91 \<and> c \<noteq> 93
       \<and> c \<noteq> 123 \<and> c \<noteq> 125"

text \<open>An issue with a given title and body, for the examples.\<close>

definition example_issue :: "jstring \<Rightarrow> jstring option \<Rightarrow> GitHubIssue" where
  "example_issue t b = \<lparr> issue_number = 1, issue_title = t, issue_body = b, issue_labels = [] \<rparr>"

text \<open>An article with given texts, for the examples.\<close>

definition example_article :: "jstring \<Rightarrow> jstring \<Rightarrow> jstring \<Rightarrow> jstring list \<Rightarrow> GeneratedArticle" where
  "example_article t c s tags =
     \<lparr> title = t, content = c, summary = s, wordCount = countCharacters c,
       generatedAt = asc ''2025-01-02T03:04:05.678Z'',
       metadata = \<lparr> issueNumber = 42, tone = asc ''casual'', targetAudience = asc ''devs'',
                    suggestedTags = tags \<rparr> \<rparr>"

text \<open>A text without line terminator.\<close>

definition single_line :: "jstring \<Rightarrow> bool" where
  "single_line s \<longleftrightarrow> \<not> list_ex is_line_terminator s"

text \<open>The characters of the text \<open>toISOString()\<close> gives: digits, \<open>+ - . :\<close>, \<open>T\<close> and \<open>Z\<close>.\<close>

definition iso_char :: "nat \<Rightarrow> bool" where
  "iso_char c \<longleftrightarrow> is_digit c \<or> c = 43 \<or> c = 45 \<or> c = 46 \<or> c = 58 \<or> c = 84 \<or> c = 90"

text \<open>
  The articles whose header block reads back as written. Every value stands on one line.
  Only the summary has its double quotes escaped on writing, and nothing is unescaped on
  reading, so the summary holds no double quote. No value earlier in the block holds
  the label of a later field as the loader searches it (\<open>summary: "\<close>, \<open>tone: "\<close>,
  \<open>targetAudience: "\<close>, \<open>issueNumber: \<close>); for the tags this is ensured by their holding
  no colon. The tone is not empty (an empty tone reads back as the default). The issue
  number is a safe integer, which JavaScript prints in plain decimal digits.
\<close>

definition header_safe :: "GeneratedArticle \<Rightarrow> bool" where
  \<open>header_safe a \<longleftrightarrow>
     single_line (title a)
     \<and> \<not> includes_js (title a) (asc ''summary: "'')
     \<and> \<not> includes_js (title a) (asc ''tone: "'')
     \<and> \<not> includes_js (title a) (asc ''targetAudience: "'')
     \<and> \<not> includes_js (title a) (asc ''issueNumber: '')
     \<and> single_line (summary a) \<and> 34 \<notin> set (summary a)
     \<and> \<not> includes_js (summary a) (asc ''issueNumber: '')
     \<and> list_all (\<lambda>t. 10 \<notin> set t \<and> 58 \<notin> set t) (suggestedTags (metadata a))
     \<and> list_all iso_char (generatedAt a)
     \<and> tone (metadata a) \<noteq> [] \<and> single_line (tone (metadata a))
     \<and> \<not> includes_js (tone (metadata a)) (asc ''targetAudience: "'')
     \<and> single_line (targetAudience (metadata a))
     \<and> issueNumber (metadata a) < 2 ^ 53\<close>

text \<open>A text whose only line terminators are line feeds: no carriage return, no U+2028,
  no U+2029.\<close>

definition lf_only :: "jstring \<Rightarrow> bool" where
  "lf_only s \<longleftrightarrow> (\<forall>c\<in>set s. is_line_terminator c \<longrightarrow> c = 10)"

text \<open>A heading line of name \<open>k\<close>, for a line without line terminator: \<open>##\<close>, one or
  more white-space characters, and a non-empty rest whose trimmed text is \<open>k\<close>.\<close>

definition heading_line :: "jstring \<Rightarrow> jstring \<Rightarrow> bool" where
  "heading_line l k \<longleftrightarrow>
     (\<exists>w nm. l = asc ''##'' @ w @ nm \<and> w \<noteq> [] \<and> (\<forall>c\<in>set w. is_space c) \<and> nm \<noteq> []
        \<and> trim nm = k)"

text \<open>The lines hold a section of name \<open>k\<close> with content \<open>v\<close>: \<open>v\<close> is the trimmed
  text of the lines between the last heading line of name \<open>k\<close> and the next heading
  line of any name, or the end of the lines.\<close>

definition section_text :: "jstring list \<Rightarrow> jstring \<Rightarrow> jstring \<Rightarrow> bool" where
  "section_text ls k v \<longleftrightarrow>
     (\<exists>pre h cs post. ls = pre @ h # cs @ post \<and> heading_line h k
        \<and> (\<forall>l\<in>set cs. \<not> (\<exists>k'. heading_line l k'))
        \<and> (post = [] \<or> (\<exists>k'. heading_line (hd post) k'))
        \<and> (\<forall>l\<in>set post. \<not> heading_line l k)
        \<and> v = trim (join [10] cs))"

text \<open>The lines hold no heading line of name \<open>k\<close>.\<close>

definition no_section :: "jstring list \<Rightarrow> jstring \<Rightarrow> bool" where
  "no_section ls k \<longleftrightarrow> (\<forall>l\<in>set ls. \<not> heading_line l k)"

section \<open>Facts about strings\<close>

lemma includes_js_iff_sublist: "includes_js s k \<longleftrightarrow> sublist k s"
  by (induction s) (auto simp: sublist_Cons_right)

lemma includes_js_iff: "includes_js s k \<longleftrightarrow> (\<exists>ps ss. s = ps @ k @ ss)"
  by (simp add: includes_js_iff_sublist sublist_def)

lemma first_included_find:
  "first_included body cmds = find (\<lambda>c. includes_js body c) cmds"
  by (induction cmds) auto

section \<open>Facts about the Request Extractor\<close>

lemma url_at_SomeD:
  assumes "url_at s = Some (u, rest)"
  shows "s = u @ rest"
    and "\<exists>run. (u = asc ''http://'' @ run \<or> u = asc ''https://'' @ run) \<and> run \<noteq> []
           \<and> (\<forall>c\<in>set run. \<not> url_stop c)"
    and "rest = [] \<or> url_stop (hd rest)"
proof -
  obtain n where n: "(n = 8 \<and> prefix (asc ''https://'') s) \<or> (n = 7 \<and> prefix (asc ''http://'') s)"
    and u: "u = take n s @ takeWhile (\<lambda>c. \<not> url_stop c) (drop n s)"
    and r: "rest = dropWhile (\<lambda>c. \<not> url_stop c) (drop n s)"
    and ne: "takeWhile (\<lambda>c. \<not> url_stop c) (drop n s) \<noteq> []"
    using assms by (auto simp: url_at_def Let_def split: if_splits)
  show "s = u @ rest" by (simp add: u r)
  from n have "take n s = asc ''https://'' \<or> take n s = asc ''http://''"
    by (auto simp: prefix_def)
  with u ne show "\<exists>run. (u = asc ''http://'' @ run \<or> u = asc ''https://'' @ run) \<and> run \<noteq> []
           \<and> (\<forall>c\<in>set run. \<not> url_stop c)"
    by (metis set_takeWhileD)
  show "rest = [] \<or> url_stop (hd rest)"
    unfolding r by (metis hd_dropWhile)
qed

lemma match_all_urls_shape:
  "u \<in> set (match_all_urls s) \<Longrightarrow>
     \<exists>run. (u = asc ''http://'' @ run \<or> u = asc ''https://'' @ run) \<and> run \<noteq> []
           \<and> (\<forall>c\<in>set run. \<not> url_stop c)"
proof (induction s rule: match_all_urls.induct)
  case 1
  then show ?case by simp
next
  case (2 c cs)
  show ?case
  proof (cases "url_at (c # cs)")
    case None
    with 2 show ?thesis by simp
  next
    case (Some p)
    obtain v rest where p: "p = (v, rest)" by (cases p)
    with Some 2 url_at_SomeD(2) [of "c # cs" v rest] show ?thesis by auto
  qed
qed


lemma no_http_no_urls: "\<not> includes_js s (asc ''http'') \<Longrightarrow> match_all_urls s = []"
proof (induction s rule: match_all_urls.induct)
  case 1
  then show ?case by simp
next
  case (2 c cs)
  from "2.prems" have np: "\<not> prefix (asc ''http'') (c # cs)" and nt: "\<not> includes_js cs (asc ''http'')"
    by simp_all
  have "\<not> prefix (asc ''https://'') (c # cs)" "\<not> prefix (asc ''http://'') (c # cs)"
    using np by (auto simp: prefix_def)
  then have "url_at (c # cs) = None"
    unfolding url_at_def by (simp only: if_False Let_def option.simps)
  with "2.IH"(1) nt show ?case by simp
qed

lemma parseIssueSections_empty: "parseIssueSections [] k = None"
  by (simp add: parseIssueSections_def section_match_def save_section_def)

lemma dropWhile_all_append:
  "\<forall>x\<in>set w. P x \<Longrightarrow> dropWhile P (w @ r) = dropWhile P r"
  by (induction w) auto

lemma strip_title_label_prefix:
  assumes "c = 58 \<or> c = 65306" and "\<forall>x\<in>set w. is_space x" and "rest = [] \<or> \<not> is_space (hd rest)"
  shows "strip_title_label (title_label @ c # w @ rest) = rest"
proof -
  have "dropWhile is_space (w @ rest) = rest"
    using assms(2,3) by (cases rest) (simp_all add: dropWhile_all_append)
  with assms(1) show ?thesis
    by (auto simp: strip_title_label_def title_label_def)
qed

lemma strip_title_label_other:
  "\<not> prefix (title_label @ [58]) t \<Longrightarrow> \<not> prefix (title_label @ [65306]) t \<Longrightarrow> strip_title_label t = t"
  by (simp add: strip_title_label_def)

lemma sections_loop_append:
  "sections_loop (xs @ ys) s c ct =
     (case sections_loop xs s c ct of (s', c', ct') \<Rightarrow> sections_loop ys s' c' ct')"
  by (induction xs arbitrary: s c ct) (auto split: option.splits)

lemma sections_loop_content:
  "c \<noteq> [] \<Longrightarrow> \<forall>l\<in>set ls. section_match l = None \<Longrightarrow> sections_loop ls s c ct = (s, c, ct @ ls)"
  by (induction ls arbitrary: ct) auto

lemma save_section_other: "cur \<noteq> k \<Longrightarrow> save_section s cur ct k = s k"
  by (simp add: save_section_def store_def)

lemma save_section_same:
  "k \<noteq> [] \<Longrightarrow> k \<noteq> asc ''__proto__'' \<Longrightarrow> save_section s k ct k = Some (trim (join [10] ct))"
  by (simp add: save_section_def store_def)

lemma sections_loop_preserve:
  "\<forall>l\<in>set ls. \<forall>nm. section_match l = Some nm \<longrightarrow> trim nm \<noteq> k \<Longrightarrow> cur \<noteq> k \<Longrightarrow>
     (case sections_loop ls s cur ct of (s', c', ct') \<Rightarrow> save_section s' c' ct') k = s k"
proof (induction ls arbitrary: s cur ct)
  case Nil
  then show ?case by (simp add: save_section_other)
next
  case (Cons l ls)
  show ?case
  proof (cases "section_match l")
    case None
    with Cons show ?thesis by simp
  next
    case (Some nm)
    with Cons.prems have ne: "trim nm \<noteq> k" by simp
    have "(case sections_loop ls (save_section s cur ct) (trim nm) [] of
            (s', c', ct') \<Rightarrow> save_section s' c' ct') k = save_section s cur ct k"
      using Cons.IH [of "trim nm" "save_section s cur ct" "[]"] Cons.prems(1) ne by simp
    with Some Cons.prems(2) show ?thesis by (simp add: save_section_other)
  qed
qed

lemma section_content:
  assumes ls: "split_on 10 body = pre @ h # cs @ post"
    and h: "section_match h = Some nm" "trim nm = k" "k \<noteq> []" "k \<noteq> asc ''__proto__''"
    and cs: "\<forall>l\<in>set cs. section_match l = None"
    and post: "post = [] \<or> section_match (hd post) \<noteq> None"
    and later: "\<forall>l\<in>set post. \<forall>nm'. section_match l = Some nm' \<longrightarrow> trim nm' \<noteq> k"
  shows "parseIssueSections body k = Some (trim (join [10] cs))"
proof -
  obtain s1 c1 ct1 where pre: "sections_loop pre Map.empty [] [] = (s1, c1, ct1)"
    by (cases "sections_loop pre Map.empty [] []") auto
  let ?s2 = "save_section s1 c1 ct1"
  have "sections_loop (pre @ h # cs @ post) Map.empty [] [] = sections_loop (cs @ post) ?s2 k []"
    using pre h(1,2) by (simp add: sections_loop_append)
  also have "\<dots> = sections_loop post ?s2 k cs"
    using sections_loop_content [OF h(3) cs, of ?s2 "[]"] by (simp add: sections_loop_append)
  finally have run: "parseIssueSections body k
      = (case sections_loop post ?s2 k cs of (s', c', ct') \<Rightarrow> save_section s' c' ct') k"
    by (simp add: parseIssueSections_def ls)
  show ?thesis
  proof (cases post)
    case Nil
    with run h(3,4) show ?thesis by (simp add: save_section_same)
  next
    case (Cons p ps)
    with post obtain nm' where p: "section_match p = Some nm'" by auto
    with later Cons have ne: "trim nm' \<noteq> k" by simp
    have "(case sections_loop ps (save_section ?s2 k cs) (trim nm') [] of
            (s', c', ct') \<Rightarrow> save_section s' c' ct') k = save_section ?s2 k cs k"
      using sections_loop_preserve [of ps k "trim nm'"] later Cons ne by simp
    with run Cons p h(3,4) show ?thesis by (simp add: save_section_same)
  qed
qed

lemma url_at_scheme:
  assumes "prefix (asc ''http://'' @ [x]) s \<or> prefix (asc ''https://'' @ [x]) s" "\<not> url_stop x"
  shows "url_at s \<noteq> None"
proof -
  from assms(1) obtain t where "s = asc ''http://'' @ x # t \<or> s = asc ''https://'' @ x # t"
    by (auto simp: prefix_def)
  with assms(2) show ?thesis
    by (auto simp: url_at_def Let_def)
qed

lemma match_all_urls_gaps:
  "\<exists>gaps. length gaps = Suc (length (match_all_urls s)) \<and> s = weave gaps (match_all_urls s)
     \<and> (\<forall>g\<in>set (tl gaps). g = [] \<or> url_stop (hd g))
     \<and> (\<forall>g\<in>set gaps. \<forall>ps x ss.
           g = ps @ asc ''http://'' @ x # ss \<or> g = ps @ asc ''https://'' @ x # ss \<longrightarrow> url_stop x)"
proof (induction s rule: match_all_urls.induct)
  case 1
  have "length [[]::jstring] = Suc (length (match_all_urls [])) \<and> [] = weave [[]] (match_all_urls [])
     \<and> (\<forall>g\<in>set (tl [[]::jstring]). g = [] \<or> url_stop (hd g))
     \<and> (\<forall>g\<in>set [[]::jstring]. \<forall>ps x ss.
           g = ps @ asc ''http://'' @ x # ss \<or> g = ps @ asc ''https://'' @ x # ss \<longrightarrow> url_stop x)"
    by simp
  then show ?case by blast
next
  case (2 c cs)
  show ?case
  proof (cases "url_at (c # cs)")
    case None
    from "2.IH"(1) [OF None]
    obtain gaps where g: "length gaps = Suc (length (match_all_urls cs))"
      "cs = weave gaps (match_all_urls cs)"
      "\<forall>g\<in>set (tl gaps). g = [] \<or> url_stop (hd g)"
      "\<forall>g\<in>set gaps. \<forall>ps x ss.
           g = ps @ asc ''http://'' @ x # ss \<or> g = ps @ asc ''https://'' @ x # ss \<longrightarrow> url_stop x"
      by blast
    then obtain g0 gs where gg: "gaps = g0 # gs" by (cases gaps) auto
    have m: "match_all_urls (c # cs) = match_all_urls cs"
      using None by simp
    have w: "c # cs = weave ((c # g0) # gs) (match_all_urls cs)"
      using g(2) unfolding gg by (cases "match_all_urls cs") auto
    have pre: "prefix g0 cs"
      using g(2) unfolding gg by (cases "match_all_urls cs") auto
    have l: "length ((c # g0) # gs) = Suc (length (match_all_urls cs))"
      using g(1) gg by simp
    have t: "\<forall>g\<in>set (tl ((c # g0) # gs)). g = [] \<or> url_stop (hd g)"
      using g(3) gg by simp
    have first: "url_stop x" if h: "c # g0 = ps @ asc ''http://'' @ x # ss \<or> c # g0 = ps @ asc ''https://'' @ x # ss"
      for ps x ss
    proof (cases ps)
      case Nil
      with h have "prefix (asc ''http://'' @ [x]) (c # g0) \<or> prefix (asc ''https://'' @ [x]) (c # g0)"
        by (auto simp: prefix_def)
      with pre have "prefix (asc ''http://'' @ [x]) (c # cs) \<or> prefix (asc ''https://'' @ [x]) (c # cs)"
        by (meson Cons_prefix_Cons prefix_order.trans)
      with None url_at_scheme show ?thesis by blast
    next
      case (Cons p ps')
      with h have "g0 = ps' @ asc ''http://'' @ x # ss \<or> g0 = ps' @ asc ''https://'' @ x # ss"
        by auto
      with g(4) gg show ?thesis by auto
    qed
    have n: "\<forall>g\<in>set ((c # g0) # gs). \<forall>ps x ss.
           g = ps @ asc ''http://'' @ x # ss \<or> g = ps @ asc ''https://'' @ x # ss \<longrightarrow> url_stop x"
    proof (intro ballI allI impI)
      fix g ps x ss
      assume gin: "g \<in> set ((c # g0) # gs)"
        and h: "g = ps @ asc ''http://'' @ x # ss \<or> g = ps @ asc ''https://'' @ x # ss"
      show "url_stop x"
      proof (cases "g = c # g0")
        case True
        from h show ?thesis unfolding True by (rule first)
      next
        case False
        with gin have "g \<in> set gaps" by (simp add: gg)
        with g(4) h show ?thesis by blast
      qed
    qed
    from w l t n show ?thesis
      unfolding m by blast
  next
    case (Some p)
    obtain v rest where p: "p = (v, rest)" by (cases p)
    from "2.IH"(2) [OF Some p [symmetric]]
    obtain gaps where g: "length gaps = Suc (length (match_all_urls rest))"
      "rest = weave gaps (match_all_urls rest)"
      "\<forall>g\<in>set (tl gaps). g = [] \<or> url_stop (hd g)"
      "\<forall>g\<in>set gaps. \<forall>ps x ss.
           g = ps @ asc ''http://'' @ x # ss \<or> g = ps @ asc ''https://'' @ x # ss \<longrightarrow> url_stop x"
      by blast
    then obtain g0 gs where gg: "gaps = g0 # gs" by (cases gaps) auto
    have m: "match_all_urls (c # cs) = v # match_all_urls rest"
      using Some p by simp
    have split: "c # cs = v @ rest" and stop: "rest = [] \<or> url_stop (hd rest)"
      using Some p url_at_SomeD(1,3) by blast+
    have w: "c # cs = weave ([] # gaps) (v # match_all_urls rest)"
      using split g(2) by simp
    have l: "length ([] # gaps) = Suc (length (v # match_all_urls rest))"
      using g(1) by simp
    have pre: "prefix g0 rest"
      using g(2) unfolding gg by (cases "match_all_urls rest") auto
    have "g0 = [] \<or> url_stop (hd g0)"
      using pre stop by (cases g0) (auto simp: prefix_def)
    then have t: "\<forall>g\<in>set (tl ([] # gaps)). g = [] \<or> url_stop (hd g)"
      using g(3) gg by auto
    have n: "\<forall>g\<in>set ([] # gaps). \<forall>ps x ss.
           g = ps @ asc ''http://'' @ x # ss \<or> g = ps @ asc ''https://'' @ x # ss \<longrightarrow> url_stop x"
      using g(4) by auto
    from w l t n show ?thesis
      unfolding m by blast
  qed
qed

lemmas eval_sections =
  parseIssueSections_def section_match_def save_section_def store_def trim_def
  is_space_def is_line_terminator_def Let_def body_text_def

section \<open>Facts about the title/body splitter and the article documents\<close>

lemma split_on_nonempty: "split_on d s \<noteq> []"
  by (induction s) (auto split: list.splits)

lemma hd_split_on:
  "s \<noteq> [] \<Longrightarrow> hd s \<noteq> d \<Longrightarrow> hd (split_on d s) \<noteq> [] \<and> hd (hd (split_on d s)) = hd s"
  by (cases s) (auto split: list.splits)

lemma trim_nonspace_last: "trim s \<noteq> [] \<Longrightarrow> \<not> is_space (last (trim s))"
  unfolding trim_def by (simp add: last_rev hd_dropWhile)

lemma trim_nonspace_hd: "trim s \<noteq> [] \<Longrightarrow> \<not> is_space (hd (trim s))"
proof -
  assume ne: "trim s \<noteq> []"
  let ?t = "dropWhile is_space s"
  have t: "?t = trim s @ rev (takeWhile is_space (rev ?t))"
    unfolding trim_def
    by (metis rev_append rev_rev_ident takeWhile_dropWhile_id)
  then have "?t \<noteq> []" using ne by (metis append_is_Nil_conv)
  then have "\<not> is_space (hd ?t)" by (rule hd_dropWhile)
  moreover have "hd ?t = hd (trim s)" using t ne by (metis hd_append2)
  ultimately show ?thesis by simp
qed

lemma heading_title:
  assumes "prefix (asc ''# '') (trim l)"
  shows "strip_heading_mark (trim l) = dropWhile is_space (drop 2 (trim l))"
    and "strip_heading_mark (trim l) \<noteq> []"
proof -
  from assms obtain r where r: "trim l = 35 # 32 # r" by (auto simp: prefix_def)
  have sp: "is_space 32" by (simp add: is_space_def)
  from r have "\<not> is_space (last (35 # 32 # r))"
    using trim_nonspace_last [of l] by simp
  with sp have rne: "r \<noteq> []" and lr: "\<not> is_space (last r)" by (auto split: if_splits)
  then have "last r \<in> set r" by simp
  with lr have dne: "dropWhile is_space r \<noteq> []" by (auto simp: dropWhile_eq_Nil_conv)
  show "strip_heading_mark (trim l) = dropWhile is_space (drop 2 (trim l))"
    by (simp add: r strip_heading_mark_def sp)
  then show "strip_heading_mark (trim l) \<noteq> []"
    using dne by (simp add: r)
qed

lemma find_heading_first:
  "i < length ls \<Longrightarrow> prefix (asc ''# '') (trim (ls ! i))
     \<Longrightarrow> \<forall>j<i. \<not> prefix (asc ''# '') (trim (ls ! j))
     \<Longrightarrow> find_heading ls k = Some (strip_heading_mark (trim (ls ! i)), k + i + 1)"
proof (induction ls arbitrary: i k)
  case Nil
  then show ?case by simp
next
  case (Cons l ls)
  show ?case
  proof (cases i)
    case 0
    with Cons.prems show ?thesis by simp
  next
    case (Suc i')
    with Cons.prems have "\<not> prefix (asc ''# '') (trim l)" by auto
    moreover have "find_heading ls (k + 1) = Some (strip_heading_mark (trim (ls ! i')), k + 1 + i' + 1)"
      using Cons.prems Suc by (intro Cons.IH) auto
    ultimately show ?thesis using Suc by simp
  qed
qed

lemma find_heading_none:
  "\<forall>l\<in>set ls. \<not> prefix (asc ''# '') (trim l) \<Longrightarrow> find_heading ls k = None"
  by (induction ls arbitrary: k) auto

lemma first_line_title:
  "strip_hashes (hd (split_on 10 (trim text)))
     = dropWhile is_space (dropWhile (\<lambda>c. c = 35) (hd (split_on 10 (trim text))))"
proof (cases "trim text = []")
  case True
  then show ?thesis by (simp add: strip_hashes_def)
next
  case False
  let ?l = "hd (split_on 10 (trim text))"
  have ns: "\<not> is_space (hd (trim text))" using False by (rule trim_nonspace_hd)
  then have "hd (trim text) \<noteq> 10" by (auto simp: is_space_def)
  with False have l: "?l \<noteq> []" "hd ?l = hd (trim text)"
    using hd_split_on [of "trim text" 10] by auto
  show ?thesis
  proof (cases "prefix [35] ?l")
    case True
    then show ?thesis by (simp add: strip_hashes_def)
  next
    case False
    with l have "hd ?l \<noteq> 35" by (cases ?l) auto
    with l ns have "dropWhile (\<lambda>c. c = 35) ?l = ?l" "dropWhile is_space ?l = ?l"
      by (cases ?l; simp)+
    with False show ?thesis by (simp add: strip_hashes_def)
  qed
qed

lemma parseArticleContent_heading:
  assumes "i < length (split_on 10 (trim text))"
    and "prefix (asc ''# '') (trim (split_on 10 (trim text) ! i))"
    and "\<forall>j<i. \<not> prefix (asc ''# '') (trim (split_on 10 (trim text) ! j))"
  shows "parseArticleContent text =
     (dropWhile is_space (drop 2 (trim (split_on 10 (trim text) ! i))),
      trim (join [10] (drop (i + 1) (split_on 10 (trim text)))))"
proof -
  let ?ls = "split_on 10 (trim text)"
  have f: "find_heading ?ls 0 = Some (strip_heading_mark (trim (?ls ! i)), i + 1)"
    using find_heading_first [OF assms, of 0] by simp
  obtain l0 rest where ls: "?ls = l0 # rest"
    using split_on_nonempty [of 10 "trim text"] by (cases ?ls) auto
  have ne: "strip_heading_mark (trim (?ls ! i)) \<noteq> []"
    using assms(2) by (rule heading_title(2))
  have "parseArticleContent text =
      (strip_heading_mark (trim (?ls ! i)), trim (join [10] (drop (i + 1) ?ls)))"
    unfolding parseArticleContent_def Let_def f using ne by (simp add: ls)
  then show ?thesis by (simp only: heading_title(1) [OF assms(2)])
qed

lemma parseArticleContent_no_heading:
  assumes "\<forall>l\<in>set (split_on 10 (trim text)). \<not> prefix (asc ''# '') (trim l)"
  shows "parseArticleContent text =
     (dropWhile is_space (dropWhile (\<lambda>c. c = 35) (hd (split_on 10 (trim text)))),
      trim (join [10] (drop 1 (split_on 10 (trim text)))))"
proof -
  let ?ls = "split_on 10 (trim text)"
  have f: "find_heading ?ls 0 = None"
    using assms by (rule find_heading_none)
  obtain l0 rest where ls: "?ls = l0 # rest"
    using split_on_nonempty [of 10 "trim text"] by (cases ?ls) auto
  have "parseArticleContent text = (strip_hashes (hd ?ls), trim (join [10] (drop 1 ?ls)))"
    unfolding parseArticleContent_def Let_def f by (simp add: ls)
  then show ?thesis by (simp only: first_line_title)
qed

lemma filter_dropWhile_not: "filter (\<lambda>c. \<not> P c) (dropWhile P s) = filter (\<lambda>c. \<not> P c) s"
  by (induction s) auto

lemma countCharacters_trim: "countCharacters (trim s) = countCharacters s"
proof -
  have "filter (\<lambda>c. \<not> is_space c) (trim s)
      = rev (filter (\<lambda>c. \<not> is_space c) (dropWhile is_space (rev (dropWhile is_space s))))"
    by (simp add: trim_def rev_filter)
  also have "\<dots> = filter (\<lambda>c. \<not> is_space c) s"
    by (simp add: filter_dropWhile_not rev_filter [symmetric])
  finally show ?thesis by (simp add: countCharacters_def)
qed

lemma split_at_first_Some: "split_at_first d s = Some (a, b) \<Longrightarrow> s = a @ d @ b"
proof (induction s arbitrary: a)
  case Nil
  then show ?case by (simp split: if_splits)
next
  case (Cons c cs)
  show ?case
  proof (cases "prefix d (c # cs)")
    case True
    with Cons.prems have "a = []" "b = drop (length d) (c # cs)" by simp_all
    moreover from True have "c # cs = d @ drop (length d) (c # cs)"
      by (metis append_eq_conv_conj prefix_def)
    ultimately show ?thesis by simp
  next
    case False
    with Cons.prems obtain a' where "split_at_first d cs = Some (a', b)" "a = c # a'"
      by (auto split: option.splits)
    with Cons.IH show ?thesis by simp
  qed
qed

lemma split_at_first_occurs: "split_at_first d (a @ d @ b) \<noteq> None"
proof (induction a)
  case Nil
  have p: "prefix d (d @ b)" by simp
  show ?case
  proof (cases "d @ b")
    case Nil
    then show ?thesis by simp
  next
    case (Cons x xs)
    with p have "prefix d (x # xs)" by simp
    then show ?thesis unfolding append_Nil Cons by simp
  qed
next
  case (Cons c a)
  then show ?case by (auto split: option.splits)
qed

lemma split_at_first_None_iff: "split_at_first d s = None \<longleftrightarrow> \<not> (\<exists>a b. s = a @ d @ b)"
proof
  assume "split_at_first d s = None"
  then show "\<not> (\<exists>a b. s = a @ d @ b)" using split_at_first_occurs by metis
next
  assume n: "\<not> (\<exists>a b. s = a @ d @ b)"
  show "split_at_first d s = None"
  proof (cases "split_at_first d s")
    case None
    then show ?thesis .
  next
    case (Some p)
    then show ?thesis using n split_at_first_Some by (cases p) blast
  qed
qed

lemma frontmatter_match_None_iff:
  "frontmatter_match text = None
     \<longleftrightarrow> \<not> (\<exists>fm body. text = asc ''---\<newline>'' @ fm @ asc ''\<newline>---\<newline>'' @ body)"
proof -
  have "prefix (asc ''---\<newline>'') text \<and> (\<exists>a b. drop 4 text = a @ asc ''\<newline>---\<newline>'' @ b)
      \<longleftrightarrow> (\<exists>fm body. text = asc ''---\<newline>'' @ fm @ asc ''\<newline>---\<newline>'' @ body)"
  proof
    assume "prefix (asc ''---\<newline>'') text \<and> (\<exists>a b. drop 4 text = a @ asc ''\<newline>---\<newline>'' @ b)"
    then obtain r a b where "text = asc ''---\<newline>'' @ r" "drop 4 text = a @ asc ''\<newline>---\<newline>'' @ b"
      by (auto simp: prefix_def)
    then have "text = asc ''---\<newline>'' @ a @ asc ''\<newline>---\<newline>'' @ b" by simp
    then show "\<exists>fm body. text = asc ''---\<newline>'' @ fm @ asc ''\<newline>---\<newline>'' @ body" by blast
  next
    assume "\<exists>fm body. text = asc ''---\<newline>'' @ fm @ asc ''\<newline>---\<newline>'' @ body"
    then obtain fm body where t: "text = asc ''---\<newline>'' @ fm @ asc ''\<newline>---\<newline>'' @ body" by blast
    then have "prefix (asc ''---\<newline>'') text" by simp
    moreover have "drop 4 text = fm @ asc ''\<newline>---\<newline>'' @ body" using t by simp
    ultimately show "prefix (asc ''---\<newline>'') text \<and> (\<exists>a b. drop 4 text = a @ asc ''\<newline>---\<newline>'' @ b)"
      by blast
  qed
  then show ?thesis
    unfolding frontmatter_match_def
    by (simp only: split_at_first_None_iff split: if_split) blast
qed

lemma save_has_frontmatter: "frontmatter_match (saveArticleAsMarkdown a) \<noteq> None"
  unfolding frontmatter_match_None_iff saveArticleAsMarkdown_def not_not append_assoc
  by (intro exI) (rule refl)

section \<open>Facts about the round trip of a document\<close>

lemma prefix_set_subset: "prefix k s \<Longrightarrow> set k \<subseteq> set s"
  by (auto simp: prefix_def)

lemma prefix_line:
  assumes "d \<notin> set k"
  shows "prefix k (L @ d # R) \<longleftrightarrow> prefix k L"
proof
  assume p: "prefix k (L @ d # R)"
  show "prefix k L"
  proof (cases "length k \<le> length L")
    case True
    with p show ?thesis by (metis prefix_length_prefix prefixI)
  next
    case False
    from p obtain z where z: "L @ d # R = k @ z" by (auto simp: prefix_def)
    from False have "length L < length k" by simp
    then have "k ! length L = (k @ z) ! length L" by (simp add: nth_append)
    also have "\<dots> = d" unfolding z [symmetric] by simp
    finally have "d \<in> set k" using \<open>length L < length k\<close> by (metis nth_mem)
    with assms show ?thesis by simp
  qed
next
  assume "prefix k L"
  then show "prefix k (L @ d # R)" by (rule prefix_prefix)
qed

lemma takeWhile_line: "\<not> P d \<Longrightarrow> takeWhile P (X @ d # R) = takeWhile P X"
  by (induction X) auto

lemma capture_to_last_line:
  "capture_to_last cl (X @ 10 # R) = capture_to_last cl X"
  by (simp add: capture_to_last_def takeWhile_line is_line_terminator_def)

lemma match_field_line:
  assumes "k \<noteq> []" "10 \<notin> set k"
  shows "match_field k cl (L @ 10 # R) =
     (case match_field k cl L of Some v \<Rightarrow> Some v | None \<Rightarrow> match_field k cl R)"
proof (induction L)
  case Nil
  from assms have "\<not> prefix k (10 # R)" by (cases k) auto
  then show ?case by simp
next
  case (Cons c L)
  have p: "prefix k (c # L @ 10 # R) \<longleftrightarrow> prefix k (c # L)"
    using prefix_line [OF assms(2), of "c # L" R] by simp
  show ?case
  proof (cases "prefix k (c # L)")
    case True
    then have "length k \<le> length (c # L)" by (rule prefix_length_le)
    then have "drop (length k) ((c # L) @ 10 # R) = drop (length k) (c # L) @ 10 # R"
      by (simp only: drop_append) simp
    then have "drop (length k) (c # L @ 10 # R) = drop (length k) (c # L) @ 10 # R"
      by (simp only: append_Cons)
    then have "capture_to_last cl (drop (length k) (c # L @ 10 # R))
        = capture_to_last cl (drop (length k) (c # L))"
      by (simp only: capture_to_last_line)
    with True p Cons.IH show ?thesis by (simp split: option.splits)
  next
    case False
    with p Cons.IH show ?thesis by simp
  qed
qed

lemma match_digits_line:
  assumes "k \<noteq> []" "10 \<notin> set k"
  shows "match_digits k (L @ 10 # R) =
     (case match_digits k L of Some v \<Rightarrow> Some v | None \<Rightarrow> match_digits k R)"
proof (induction L)
  case Nil
  from assms have "\<not> prefix k (10 # R)" by (cases k) auto
  then show ?case by simp
next
  case (Cons c L)
  have p: "prefix k (c # L @ 10 # R) \<longleftrightarrow> prefix k (c # L)"
    using prefix_line [OF assms(2), of "c # L" R] by simp
  have nd: "\<not> is_digit 10" by (simp add: is_digit_def)
  show ?case
  proof (cases "prefix k (c # L)")
    case True
    then have "length k \<le> length (c # L)" by (rule prefix_length_le)
    then have "drop (length k) ((c # L) @ 10 # R) = drop (length k) (c # L) @ 10 # R"
      by (simp only: drop_append) simp
    then have "drop (length k) (c # L @ 10 # R) = drop (length k) (c # L) @ 10 # R"
      by (simp only: append_Cons)
    then have "takeWhile is_digit (drop (length k) (c # L @ 10 # R))
        = takeWhile is_digit (drop (length k) (c # L))"
      by (simp only: takeWhile_line [of is_digit 10, OF nd])
    with True p Cons.IH show ?thesis by simp
  next
    case False
    with p Cons.IH show ?thesis by simp
  qed
qed

lemma match_field_absent:
  "c \<in> set k \<Longrightarrow> c \<notin> set L \<Longrightarrow> match_field k cl L = None"
proof (induction L)
  case Nil
  then show ?case by simp
next
  case (Cons x L)
  then have "\<not> prefix k (x # L)" using prefix_set_subset by blast
  with Cons show ?case by simp
qed

lemma match_digits_absent:
  "c \<in> set k \<Longrightarrow> c \<notin> set L \<Longrightarrow> match_digits k L = None"
proof (induction L)
  case Nil
  then show ?case by simp
next
  case (Cons x L)
  then have "\<not> prefix k (x # L)" using prefix_set_subset by blast
  with Cons show ?case by simp
qed

lemma match_field_tail:
  "\<not> includes_js T k \<Longrightarrow> k \<noteq> [] \<Longrightarrow> match_field k cl (T @ [c]) = None"
proof (induction T)
  case Nil
  have "capture_to_last cl (drop (length k) [c]) = None" if "prefix k [c]"
  proof -
    from that Nil.prems(2) have "k = [c]" by (cases k) auto
    then show ?thesis by (simp add: capture_to_last_def)
  qed
  then show ?case by simp
next
  case (Cons x T)
  from Cons.prems have np: "\<not> prefix k (x # T)" and ni: "\<not> includes_js T k" by simp_all
  have ih: "match_field k cl (T @ [c]) = None" using Cons.IH ni Cons.prems(2) by simp
  have "capture_to_last cl (drop (length k) (x # T @ [c])) = None" if "prefix k (x # T @ [c])"
  proof -
    from that have "prefix k ((x # T) @ [c])" by simp
    with np have "k = (x # T) @ [c]" unfolding prefix_snoc by blast
    then show ?thesis by (simp add: capture_to_last_def)
  qed
  with ih show ?case by simp
qed

lemma match_digits_tail:
  "\<not> includes_js T k \<Longrightarrow> k \<noteq> [] \<Longrightarrow> match_digits k (T @ [c]) = None"
proof (induction T)
  case Nil
  have "takeWhile is_digit (drop (length k) [c]) = []" if "prefix k [c]"
  proof -
    from that Nil.prems(2) have "k = [c]" by (cases k) auto
    then show ?thesis by simp
  qed
  then show ?case by auto
next
  case (Cons x T)
  from Cons.prems have np: "\<not> prefix k (x # T)" and ni: "\<not> includes_js T k" by simp_all
  have ih: "match_digits k (T @ [c]) = None" using Cons.IH ni Cons.prems(2) by simp
  have "takeWhile is_digit (drop (length k) (x # T @ [c])) = []" if "prefix k (x # T @ [c])"
  proof -
    from that have "prefix k ((x # T) @ [c])" by simp
    with np have "k = (x # T) @ [c]" unfolding prefix_snoc by blast
    then show ?thesis by simp
  qed
  with ih show ?case by auto
qed

lemma match_field_here:
  assumes "k \<noteq> []" "\<not> list_ex is_line_terminator v" "\<not> is_line_terminator cl"
  shows "match_field k cl (k @ v @ [cl]) = Some v"
proof -
  obtain c k' where k: "k = c # k'" using assms(1) by (cases k) auto
  have "takeWhile (\<lambda>c. \<not> is_line_terminator c) (v @ [cl]) = v @ [cl]"
    using assms(2,3) by (simp add: list_ex_iff)
  then have "capture_to_last cl (v @ [cl]) = Some v"
    by (simp add: capture_to_last_def)
  then have "capture_to_last cl (drop (length k) (k @ v @ [cl])) = Some v" by simp
  then show ?thesis unfolding k by (simp del: drop_append)
qed

lemma show_nat_digits: "show_nat n \<noteq> [] \<and> (\<forall>c\<in>set (show_nat n). is_digit c)"
proof (induction n rule: show_nat.induct)
  case (1 n)
  show ?case
  proof (cases "n < 10")
    case True
    then show ?thesis by (simp add: show_nat.simps [of n] is_digit_def)
  next
    case False
    have "n mod 10 < 10" by simp
    then have "is_digit (48 + n mod 10)" unfolding is_digit_def by linarith
    with False 1 show ?thesis by (simp add: show_nat.simps [of n])
  qed
qed

lemma parseInt10_snoc: "parseInt10 (ds @ [d]) = 10 * parseInt10 ds + (d - 48)"
  by (simp add: parseInt10_def)

lemma parseInt10_show_nat: "parseInt10 (show_nat n) = n"
proof (induction n rule: show_nat.induct)
  case (1 n)
  show ?case
  proof (cases "n < 10")
    case True
    then show ?thesis by (simp add: show_nat.simps [of n] parseInt10_def)
  next
    case False
    with 1 have "parseInt10 (show_nat (n div 10)) = n div 10" by simp
    with False show ?thesis
      by (simp add: show_nat.simps [of n] parseInt10_snoc)
  qed
qed

lemma match_digits_here:
  assumes "k \<noteq> []"
  shows "match_digits k (k @ show_nat n) = Some (show_nat n)"
proof -
  obtain c k' where k: "k = c # k'" using assms(1) by (cases k) auto
  have "takeWhile is_digit (show_nat n) = show_nat n"
    using show_nat_digits [of n] by (simp add: takeWhile_eq_all_conv)
  then have t: "takeWhile is_digit (drop (length k) (k @ show_nat n)) = show_nat n" by simp
  have "show_nat n \<noteq> []" using show_nat_digits by blast
  with t show ?thesis unfolding k by (simp del: drop_append)
qed

lemma set_join:
  "c \<notin> set sep \<Longrightarrow> \<forall>t\<in>set ls. c \<notin> set t \<Longrightarrow> c \<notin> set (join sep ls)"
  by (induction sep ls rule: join.induct) auto

lemma escape_quotes_id: "34 \<notin> set s \<Longrightarrow> escape_quotes s = s"
  by (induction s) (auto simp: escape_quotes_def)

lemma includes_js_subset: "includes_js s k \<Longrightarrow> set k \<subseteq> set s"
  by (auto simp: includes_js_iff)

lemma single_line_no_lf: "single_line s \<Longrightarrow> 10 \<notin> set s"
  by (auto simp: single_line_def list_ex_iff is_line_terminator_def)

lemma split_at_first_line:
  assumes "10 \<notin> set L" "R \<noteq> []" "hd R \<noteq> 45"
  shows "split_at_first (asc ''\<newline>---\<newline>'') (L @ 10 # R) =
     (case split_at_first (asc ''\<newline>---\<newline>'') R of
        Some (a, b) \<Rightarrow> Some (L @ 10 # a, b) | None \<Rightarrow> None)"
  using assms(1)
proof (induction L)
  case Nil
  from assms(2,3) have "\<not> prefix (asc ''\<newline>---\<newline>'') (10 # R)" by (cases R) auto
  then show ?case by (simp split: option.splits)
next
  case (Cons c L)
  then have "c \<noteq> 10" by auto
  then have "\<not> prefix (asc ''\<newline>---\<newline>'') (c # L @ 10 # R)" by simp
  with Cons show ?case by (simp split: option.splits)
qed

lemma split_at_first_last:
  "10 \<notin> set L \<Longrightarrow> split_at_first (asc ''\<newline>---\<newline>'') (L @ asc ''\<newline>---\<newline>'' @ B) = Some (L, B)"
proof (induction L)
  case Nil
  then show ?case by simp
next
  case (Cons c L)
  then have "c \<noteq> 10" by auto
  then have "\<not> prefix (asc ''\<newline>---\<newline>'') (c # L @ asc ''\<newline>---\<newline>'' @ B)" by simp
  with Cons show ?case by simp
qed

lemma split_at_first_lines:
  assumes "ls \<noteq> []" "\<forall>l\<in>set ls. 10 \<notin> set l" "\<forall>l\<in>set (tl ls). l \<noteq> [] \<and> hd l \<noteq> 45"
  shows "split_at_first (asc ''\<newline>---\<newline>'') (join [10] ls @ asc ''\<newline>---\<newline>'' @ B)
     = Some (join [10] ls, B)"
  using assms
proof (induction "[10::nat]" ls rule: join.induct)
  case 1
  then show ?case by simp
next
  case (2 l)
  then show ?case using split_at_first_last [of l B] by simp
next
  case (3 l v va)
  let ?R = "join [10] (v # va) @ asc ''\<newline>---\<newline>'' @ B"
  from "3.prems" have v: "v \<noteq> []" "hd v \<noteq> 45" by simp_all
  then have r: "?R \<noteq> []" "hd ?R \<noteq> 45" by (cases va; cases v; simp)+
  have ih: "split_at_first (asc ''\<newline>---\<newline>'') ?R = Some (join [10] (v # va), B)"
    using "3.prems" by (intro "3.hyps") auto
  have "10 \<notin> set l" using "3.prems" by simp
  from split_at_first_line [OF this r]
  have "split_at_first (asc ''\<newline>---\<newline>'') (l @ 10 # ?R) = Some (l @ 10 # join [10] (v # va), B)"
    unfolding ih by simp
  then show ?case by simp
qed

lemma match_field_lines:
  assumes "k \<noteq> []" "10 \<notin> set k"
    and "\<forall>p\<in>set pre. match_field k cl p = None" "match_field k cl l = Some v"
  shows "match_field k cl (join [10] (pre @ l # post)) = Some v"
  using assms(3)
proof (induction pre)
  case Nil
  show ?case
  proof (cases post)
    case Nil
    then show ?thesis using assms(4) by simp
  next
    case (Cons q qs)
    then show ?thesis using match_field_line [OF assms(1,2), of cl l] assms(4) by simp
  qed
next
  case (Cons p pre)
  obtain x xs where x: "pre @ l # post = x # xs" by (cases "pre @ l # post") auto
  have "match_field k cl (p @ 10 # join [10] (pre @ l # post)) = Some v"
    using match_field_line [OF assms(1,2), of cl p] Cons by simp
  then show ?case by (simp add: x)
qed

lemma match_digits_lines:
  assumes "k \<noteq> []" "10 \<notin> set k"
    and "\<forall>p\<in>set pre. match_digits k p = None" "match_digits k l = Some v"
  shows "match_digits k (join [10] (pre @ l # post)) = Some v"
  using assms(3)
proof (induction pre)
  case Nil
  show ?case
  proof (cases post)
    case Nil
    then show ?thesis using assms(4) by simp
  next
    case (Cons q qs)
    then show ?thesis using match_digits_line [OF assms(1,2), of l] assms(4) by simp
  qed
next
  case (Cons p pre)
  obtain x xs where x: "pre @ l # post = x # xs" by (cases "pre @ l # post") auto
  have "match_digits k (p @ 10 # join [10] (pre @ l # post)) = Some v"
    using match_digits_line [OF assms(1,2), of p] Cons by simp
  then show ?case by (simp add: x)
qed

lemma strip_footer_newline_end: "strip_footer (X @ [10]) = X @ [10]"
proof (induction X)
  case Nil
  show ?case by (simp add: footer_marker_def footer_start_def)
next
  case (Cons c X)
  have "list_ex is_line_terminator (drop (length footer_marker) (c # X @ [10]))"
    if p: "prefix footer_marker (c # X @ [10])"
  proof -
    from p obtain z where z: "(c # X) @ [10] = footer_marker @ z" by (auto simp: prefix_def)
    have "z \<noteq> []"
    proof
      assume "z = []"
      with z have "last footer_marker = 10" by (metis append_Nil2 last_snoc)
      then show False by (simp add: footer_marker_def footer_start_def)
    qed
    then have "last z = 10" using z by (metis last_appendR last_snoc)
    with \<open>z \<noteq> []\<close> have "10 \<in> set z" by (metis last_in_set)
    moreover have "drop (length footer_marker) (c # X @ [10]) = z"
      using z by (metis append_Cons append_eq_conv_conj)
    ultimately show ?thesis by (auto simp: list_ex_iff is_line_terminator_def)
  qed
  with Cons show ?case by auto
qed

lemma field_in_title_line:
  \<open>\<not> includes_js T (asc ''summary: "'') \<Longrightarrow>
     match_field (asc ''summary: "'') 34 (asc ''title: "'' @ T @ [34]) = None\<close>
  \<open>\<not> includes_js T (asc ''tone: "'') \<Longrightarrow>
     match_field (asc ''tone: "'') 34 (asc ''title: "'' @ T @ [34]) = None\<close>
  \<open>\<not> includes_js T (asc ''targetAudience: "'') \<Longrightarrow>
     match_field (asc ''targetAudience: "'') 34 (asc ''title: "'' @ T @ [34]) = None\<close>
  \<open>\<not> includes_js T (asc ''issueNumber: '') \<Longrightarrow>
     match_digits (asc ''issueNumber: '') (asc ''title: "'' @ T @ [34]) = None\<close>
  using match_field_tail [of T _ 34 34] match_digits_tail [of T _ 34] by simp_all

lemma field_in_summary_line:
  \<open>\<not> includes_js S (asc ''tone: "'') \<Longrightarrow>
     match_field (asc ''tone: "'') 34 (asc ''summary: "'' @ S @ [34]) = None\<close>
  \<open>\<not> includes_js S (asc ''targetAudience: "'') \<Longrightarrow>
     match_field (asc ''targetAudience: "'') 34 (asc ''summary: "'' @ S @ [34]) = None\<close>
  \<open>\<not> includes_js S (asc ''issueNumber: '') \<Longrightarrow>
     match_digits (asc ''issueNumber: '') (asc ''summary: "'' @ S @ [34]) = None\<close>
  using match_field_tail [of S _ 34 34] match_digits_tail [of S _ 34] by simp_all

lemma field_in_tags_line:
  assumes "58 \<notin> set J"
  shows \<open>match_field (asc ''tone: "'') 34 (asc ''tags: ['' @ J @ asc '']'') = None\<close>
    and \<open>match_field (asc ''targetAudience: "'') 34 (asc ''tags: ['' @ J @ asc '']'') = None\<close>
    and \<open>match_digits (asc ''issueNumber: '') (asc ''tags: ['' @ J @ asc '']'') = None\<close>
proof -
  have n: "58 \<notin> set (J @ [93])" using assms by simp
  show \<open>match_field (asc ''tone: "'') 34 (asc ''tags: ['' @ J @ asc '']'') = None\<close>
    using match_field_absent [of 58 \<open>asc ''tone: "''\<close> "J @ [93]" 34] n by simp
  show \<open>match_field (asc ''targetAudience: "'') 34 (asc ''tags: ['' @ J @ asc '']'') = None\<close>
    using match_field_absent [of 58 \<open>asc ''targetAudience: "''\<close> "J @ [93]" 34] n by simp
  show \<open>match_digits (asc ''issueNumber: '') (asc ''tags: ['' @ J @ asc '']'') = None\<close>
    using match_digits_absent [of 58 \<open>asc ''issueNumber: ''\<close> "J @ [93]"] n by simp
qed

lemma field_in_number_line:
  assumes "34 \<notin> set N"
  shows \<open>match_field (asc ''tone: "'') 34 (asc ''issueNumber: '' @ N) = None\<close>
    and \<open>match_field (asc ''targetAudience: "'') 34 (asc ''issueNumber: '' @ N) = None\<close>
    and \<open>match_field (asc ''tone: "'') 34 (asc ''wordCount: '' @ N) = None\<close>
    and \<open>match_field (asc ''targetAudience: "'') 34 (asc ''wordCount: '' @ N) = None\<close>
  using match_field_absent [of 34 \<open>asc ''tone: "''\<close> N 34]
    match_field_absent [of 34 \<open>asc ''targetAudience: "''\<close> N 34] assms
  by simp_all

lemma field_in_date_line:
  \<open>\<not> includes_js G (asc ''tone: "'') \<Longrightarrow>
     match_field (asc ''tone: "'') 34 (asc ''generatedAt: "'' @ G @ [34]) = None\<close>
  \<open>\<not> includes_js G (asc ''targetAudience: "'') \<Longrightarrow>
     match_field (asc ''targetAudience: "'') 34 (asc ''generatedAt: "'' @ G @ [34]) = None\<close>
  using match_field_tail [of G _ 34 34] by simp_all

lemma field_in_tone_line:
  \<open>\<not> includes_js V (asc ''targetAudience: "'') \<Longrightarrow>
     match_field (asc ''targetAudience: "'') 34 (asc ''tone: "'' @ V @ [34]) = None\<close>
  using match_field_tail [of V _ 34 34] by simp

lemma loadArticle_regenerate_wordCount:
  "loadArticle_regenerate text now = Inr b \<Longrightarrow> wordCount b = countCharacters (content b)"
  by (auto simp: loadArticle_regenerate_def Let_def countCharacters_trim split: option.splits)

lemma digits_no_quote: "34 \<notin> set (show_nat n)" "10 \<notin> set (show_nat n)"
  using show_nat_digits [of n] by (auto simp: is_digit_def)

lemma quoted_tags_set:
  assumes "c \<noteq> 34" "c \<noteq> 44" "c \<noteq> 32" "\<forall>t\<in>set tags. c \<notin> set t"
  shows "c \<notin> set (join (asc '', '') (map (\<lambda>t. [34] @ t @ [34]) tags))"
  using assms by (intro set_join) auto

lemma load_saved:
  assumes safe: "header_safe a"
  shows "loadArticle_regenerate (saveArticleAsMarkdown a) now =
     Inr \<lparr> title = title a,
           content = trim (asc ''\<newline># '' @ title a @ asc ''\<newline>\<newline>'' @ content a
                            @ asc ''\<newline>\<newline>---\<newline>\<newline>'' @ footer_line @ [10]),
           summary = summary a,
           wordCount = countCharacters (asc ''\<newline># '' @ title a @ asc ''\<newline>\<newline>'' @ content a
                            @ asc ''\<newline>\<newline>---\<newline>\<newline>'' @ footer_line @ [10]),
           generatedAt = now,
           metadata = \<lparr> issueNumber = issueNumber (metadata a), tone = tone (metadata a),
                        targetAudience = targetAudience (metadata a), suggestedTags = [] \<rparr> \<rparr>"
proof -
  define T where "T = title a"
  define S where "S = summary a"
  define J where "J = join (asc '', '') (map (\<lambda>t. [34] @ t @ [34]) (suggestedTags (metadata a)))"
  define N where "N = show_nat (issueNumber (metadata a))"
  define G where "G = generatedAt a"
  define W where "W = show_nat (wordCount a)"
  define V where "V = tone (metadata a)"
  define U where "U = targetAudience (metadata a)"
  define B where "B = asc ''\<newline># '' @ title a @ asc ''\<newline>\<newline>'' @ content a
                            @ asc ''\<newline>\<newline>---\<newline>\<newline>'' @ footer_line @ [10]"
  define L1 where \<open>L1 = asc ''title: "'' @ T @ [34]\<close>
  define L2 where \<open>L2 = asc ''summary: "'' @ S @ [34]\<close>
  define L3 where \<open>L3 = asc ''tags: ['' @ J @ asc '']''\<close>
  define L4 where \<open>L4 = asc ''issueNumber: '' @ N\<close>
  define L5 where \<open>L5 = asc ''generatedAt: "'' @ G @ [34]\<close>
  define L6 where \<open>L6 = asc ''wordCount: '' @ W\<close>
  define L7 where \<open>L7 = asc ''tone: "'' @ V @ [34]\<close>
  define L8 where \<open>L8 = asc ''targetAudience: "'' @ U @ [34]\<close>
  note Ls = L1_def L2_def L3_def L4_def L5_def L6_def L7_def L8_def
  from safe have T: "single_line T" \<open>\<not> includes_js T (asc ''summary: "'')\<close>
      \<open>\<not> includes_js T (asc ''tone: "'')\<close> \<open>\<not> includes_js T (asc ''targetAudience: "'')\<close>
      "\<not> includes_js T (asc ''issueNumber: '')"
    and S: "single_line S" "34 \<notin> set S" "\<not> includes_js S (asc ''issueNumber: '')"
    and tags: "\<forall>t\<in>set (suggestedTags (metadata a)). 10 \<notin> set t \<and> 58 \<notin> set t"
    and G: "\<forall>c\<in>set G. iso_char c"
    and V: "V \<noteq> []" "single_line V" \<open>\<not> includes_js V (asc ''targetAudience: "'')\<close>
    and U: "single_line U"
    by (simp_all add: header_safe_def T_def S_def G_def V_def U_def list_all_iff)
  have Sq: \<open>\<not> includes_js S (asc ''tone: "'')\<close> \<open>\<not> includes_js S (asc ''targetAudience: "'')\<close>
    using S(2) includes_js_subset by fastforce+
  have G32: "32 \<notin> set G" "10 \<notin> set G"
    using G by (auto simp: iso_char_def is_digit_def)
  have Gq: \<open>\<not> includes_js G (asc ''tone: "'')\<close> \<open>\<not> includes_js G (asc ''targetAudience: "'')\<close>
    using G32(1) includes_js_subset by fastforce+
  have J: "58 \<notin> set J" "10 \<notin> set J"
    unfolding J_def
    using quoted_tags_set [of 58 "suggestedTags (metadata a)"]
      quoted_tags_set [of 10 "suggestedTags (metadata a)"] tags
    by simp_all
  have hl: "header_lines a = [L1, L2, L3, L4, L5, L6, L7, L8]"
    using S(2) by (simp add: header_lines_def Ls T_def S_def J_def N_def G_def W_def V_def U_def
        escape_quotes_id)
  have doc: "saveArticleAsMarkdown a =
      asc ''---\<newline>'' @ join [10] [L1, L2, L3, L4, L5, L6, L7, L8] @ asc ''\<newline>---\<newline>'' @ B"
    by (simp add: saveArticleAsMarkdown_def hl B_def)
  have nolf: "\<forall>l\<in>set [L1, L2, L3, L4, L5, L6, L7, L8]. 10 \<notin> set l"
    using single_line_no_lf [OF T(1)] single_line_no_lf [OF S(1)] single_line_no_lf [OF V(2)]
      single_line_no_lf [OF U] J(2) G32(2) digits_no_quote(2)
    by (simp add: Ls N_def W_def)
  have heads: "\<forall>l\<in>set (tl [L1, L2, L3, L4, L5, L6, L7, L8]). l \<noteq> [] \<and> hd l \<noteq> 45"
    by (simp add: Ls)
  have fm: "frontmatter_match (saveArticleAsMarkdown a)
      = Some (join [10] [L1, L2, L3, L4, L5, L6, L7, L8], B)"
    unfolding doc frontmatter_match_def
    using split_at_first_lines [OF _ nolf heads, of B] by simp
  have k1: \<open>match_field (asc ''title: "'') 34 L1 = Some T\<close>
    unfolding L1_def using T(1) by (intro match_field_here) (simp_all add: single_line_def is_line_terminator_def)
  have k2: \<open>match_field (asc ''summary: "'') 34 L2 = Some S\<close>
    unfolding L2_def using S(1) by (intro match_field_here) (simp_all add: single_line_def is_line_terminator_def)
  have k7: \<open>match_field (asc ''tone: "'') 34 L7 = Some V\<close>
    unfolding L7_def using V(2) by (intro match_field_here) (simp_all add: single_line_def is_line_terminator_def)
  have k8: \<open>match_field (asc ''targetAudience: "'') 34 L8 = Some U\<close>
    unfolding L8_def using U by (intro match_field_here) (simp_all add: single_line_def is_line_terminator_def)
  have k4: \<open>match_digits (asc ''issueNumber: '') L4 = Some N\<close>
    unfolding L4_def N_def by (intro match_digits_here) simp
  have f1: "field_title (join [10] [L1, L2, L3, L4, L5, L6, L7, L8]) = T"
    unfolding field_title_def
    using match_field_lines [where pre = "[]" and l = L1 and post = "[L2, L3, L4, L5, L6, L7, L8]", OF _ _ _ k1]
    by (simp add: or_str_def)
  have f2: "field_summary (join [10] [L1, L2, L3, L4, L5, L6, L7, L8]) = S"
    unfolding field_summary_def
    using match_field_lines [where pre = "[L1]" and l = L2 and post = "[L3, L4, L5, L6, L7, L8]", OF _ _ _ k2]
      field_in_title_line(1) [OF T(2)]
    by (simp add: or_str_def L1_def)
  have f7: "field_tone (join [10] [L1, L2, L3, L4, L5, L6, L7, L8]) = V"
    unfolding field_tone_def
    using match_field_lines [where pre = "[L1, L2, L3, L4, L5, L6]" and l = L7 and post = "[L8]", OF _ _ _ k7]
      field_in_title_line(2) [OF T(3)] field_in_summary_line(1) [OF Sq(1)]
      field_in_tags_line(1) [OF J(1)] field_in_number_line(1,3) [OF digits_no_quote(1)]
      field_in_date_line(1) [OF Gq(1)] V(1)
    by (simp add: or_str_def L1_def L2_def L3_def L4_def L5_def L6_def N_def W_def)
  have f8: "field_targetAudience (join [10] [L1, L2, L3, L4, L5, L6, L7, L8]) = U"
    unfolding field_targetAudience_def
    using match_field_lines [where pre = "[L1, L2, L3, L4, L5, L6, L7]" and l = L8 and post = "[]", OF _ _ _ k8]
      field_in_title_line(3) [OF T(4)] field_in_summary_line(2) [OF Sq(2)]
      field_in_tags_line(2) [OF J(1)] field_in_number_line(2,4) [OF digits_no_quote(1)]
      field_in_date_line(2) [OF Gq(2)] field_in_tone_line [OF V(3)]
    by (simp add: or_str_def L1_def L2_def L3_def L4_def L5_def L6_def L7_def N_def W_def)
  have "show_nat (issueNumber (metadata a)) \<noteq> []" using show_nat_digits by blast
  then have f4: "field_issueNumber (join [10] [L1, L2, L3, L4, L5, L6, L7, L8]) = issueNumber (metadata a)"
    unfolding field_issueNumber_def
    using match_digits_lines [where pre = "[L1, L2, L3]" and l = L4 and post = "[L5, L6, L7, L8]", OF _ _ _ k4]
      field_in_title_line(4) [OF T(5)] field_in_summary_line(3) [OF S(3)]
      field_in_tags_line(3) [OF J(1)]
    by (simp add: or_str_def L1_def L2_def L3_def N_def parseInt10_show_nat)
  have b1: "strip_title_line B = B"
    by (simp add: strip_title_line_def B_def)
  have b2: "strip_footer B = B"
    using strip_footer_newline_end [of "asc ''\<newline># '' @ title a @ asc ''\<newline>\<newline>'' @ content a
                            @ asc ''\<newline>\<newline>---\<newline>\<newline>'' @ footer_line"]
    by (simp add: B_def)
  show ?thesis
    unfolding loadArticle_regenerate_def fm option.case prod.case Let_def b1 b2 f1 f2 f4 f7 f8
    unfolding T_def S_def V_def U_def B_def
    by (rule refl)
qed

lemma match_field_lines_none:
  assumes "k \<noteq> []" "10 \<notin> set k"
  shows "\<forall>p\<in>set ls. match_field k cl p = None \<Longrightarrow> match_field k cl (join [10] ls) = None"
proof (induction "[10::nat]" ls rule: join.induct)
  case 1
  then show ?case by simp
next
  case (2 l)
  then show ?case by simp
next
  case (3 l v va)
  then have "match_field k cl (l @ 10 # join [10] (v # va)) = None"
    using match_field_line [OF assms, of cl l "join [10] (v # va)"] by simp
  then show ?case by simp
qed

section \<open>Facts about heading lines and sections\<close>

lemma trim_dropWhile: "trim (dropWhile is_space s) = trim s"
  by (simp add: trim_def)

lemma trim_all_space: "\<forall>c\<in>set s. is_space c \<Longrightarrow> trim s = []"
proof -
  assume "\<forall>c\<in>set s. is_space c"
  then have "dropWhile is_space s = []" by (induction s) auto
  then show ?thesis by (simp only: trim_def rev.simps dropWhile.simps)
qed

lemma section_match_SomeD:
  assumes "section_match l = Some nm"
  shows "\<exists>w. l = asc ''##'' @ w @ nm \<and> w \<noteq> [] \<and> (\<forall>c\<in>set w. is_space c) \<and> nm \<noteq> []"
proof -
  let ?rest = "drop 2 l"
  let ?w = "takeWhile is_space ?rest" and ?r = "dropWhile is_space ?rest"
  from assms have p: "prefix (asc ''##'') l"
    by (simp add: section_match_def split: if_splits)
  then have l: "l = asc ''##'' @ ?rest" by (auto simp: prefix_def)
  have rest: "?rest = ?w @ ?r" by simp
  from assms p have w: "?w \<noteq> []"
    by (auto simp: section_match_def Let_def split: if_splits)
  have sp: "\<forall>c\<in>set ?w. is_space c" by (auto dest: set_takeWhileD)
  show ?thesis
  proof (cases "?r = []")
    case False
    with assms p w have "nm = ?r"
      by (auto simp: section_match_def Let_def split: if_splits)
    with False have "l = asc ''##'' @ ?w @ nm \<and> ?w \<noteq> [] \<and> (\<forall>c\<in>set ?w. is_space c) \<and> nm \<noteq> []"
      using l rest w sp by metis
    then show ?thesis by blast
  next
    case True
    with assms p w have nm: "nm = [last ?w]" and len: "2 \<le> length ?w"
      by (auto simp: section_match_def Let_def split: if_splits)
    from True rest have "?rest = ?w" by (metis append_Nil2)
    moreover have "?w = butlast ?w @ [last ?w]" using w by simp
    ultimately have "?rest = butlast ?w @ nm" unfolding nm by metis
    with l have 1: "l = asc ''##'' @ butlast ?w @ nm" by metis
    from len have 2: "butlast ?w \<noteq> []" by (cases ?w rule: rev_cases) auto
    have 3: "\<forall>c\<in>set (butlast ?w). is_space c" using sp by (meson in_set_butlastD)
    from 1 2 3 nm show ?thesis by blast
  qed
qed

lemma section_match_of_heading:
  assumes l: "l = asc ''##'' @ w @ nm" and w: "w \<noteq> []" "\<forall>c\<in>set w. is_space c"
    and nm: "nm \<noteq> []" "\<forall>c\<in>set nm. \<not> is_line_terminator c"
  shows "\<exists>nm'. section_match l = Some nm' \<and> trim nm' = trim nm"
proof -
  have p: "prefix (asc ''##'') l" and d: "drop 2 l = w @ nm" by (simp_all add: l)
  have tw: "takeWhile is_space (w @ nm) = w @ takeWhile is_space nm"
    and dw: "dropWhile is_space (w @ nm) = dropWhile is_space nm"
    using w(2) by (simp_all add: takeWhile_append dropWhile_append)
  have wne: "w @ takeWhile is_space nm \<noteq> []" using w(1) by simp
  show ?thesis
  proof (cases "dropWhile is_space nm = []")
    case False
    have "\<not> list_ex is_line_terminator (dropWhile is_space nm)"
      using nm(2) by (auto simp: list_ex_iff dest: set_dropWhileD)
    with False wne have "section_match l = Some (dropWhile is_space nm)"
      unfolding section_match_def using p by (simp add: d tw dw Let_def)
    then show ?thesis by (simp add: trim_dropWhile)
  next
    case True
    then have all: "\<forall>c\<in>set nm. is_space c" by (simp add: dropWhile_eq_Nil_conv)
    then have t: "takeWhile is_space nm = nm" by (simp add: takeWhile_eq_all_conv)
    have len: "2 \<le> length (w @ nm)" using w(1) nm(1)
      by (cases w; cases nm) auto
    have last: "last (w @ nm) = last nm" using nm(1) by simp
    have "\<not> is_line_terminator (last nm)" using nm by simp
    with True len last have "section_match l = Some [last nm]"
      unfolding section_match_def using p w(1) by (simp add: d tw dw t Let_def)
    moreover have "is_space (last nm)" using all nm(1) by simp
    then have "trim [last nm] = []" by (simp add: trim_def)
    moreover have "trim nm = []" using all by (rule trim_all_space)
    ultimately show ?thesis by simp
  qed
qed

lemma heading_line_iff:
  assumes "\<not> list_ex is_line_terminator l"
  shows "(\<exists>nm. section_match l = Some nm \<and> trim nm = k) \<longleftrightarrow> heading_line l k"
proof
  assume "\<exists>nm. section_match l = Some nm \<and> trim nm = k"
  then obtain nm where "section_match l = Some nm" "trim nm = k" by blast
  with section_match_SomeD [of l nm] show "heading_line l k"
    unfolding heading_line_def by blast
next
  assume "heading_line l k"
  then obtain w nm where h: "l = asc ''##'' @ w @ nm" "w \<noteq> []" "\<forall>c\<in>set w. is_space c"
      "nm \<noteq> []" "trim nm = k"
    unfolding heading_line_def by blast
  from assms h(1) have "\<forall>c\<in>set nm. \<not> is_line_terminator c"
    by (auto simp: list_ex_iff)
  from section_match_of_heading [OF h(1,2,3,4) this] h(5)
  show "\<exists>nm. section_match l = Some nm \<and> trim nm = k" by auto
qed

lemma not_heading_iff:
  assumes "\<not> list_ex is_line_terminator l"
  shows "section_match l = None \<longleftrightarrow> \<not> (\<exists>k. heading_line l k)"
proof -
  have "(\<exists>k. heading_line l k) \<longleftrightarrow> (\<exists>k nm. section_match l = Some nm \<and> trim nm = k)"
    using heading_line_iff [OF assms] by blast
  also have "\<dots> \<longleftrightarrow> section_match l \<noteq> None" by auto
  finally show ?thesis by blast
qed

lemma split_on_set:
  "l \<in> set (split_on d s) \<Longrightarrow> c \<in> set l \<Longrightarrow> c \<in> set s \<and> c \<noteq> d"
proof (induction s arbitrary: l)
  case Nil
  then show ?case by simp
next
  case (Cons x s)
  show ?case
  proof (cases "x = d")
    case True
    with Cons show ?thesis by auto
  next
    case False
    obtain l0 ls where sp: "split_on d s = l0 # ls"
      using split_on_nonempty [of d s] by (cases "split_on d s") auto
    with False Cons.prems have "l = x # l0 \<or> l \<in> set ls" by simp
    then show ?thesis
    proof
      assume "l = x # l0"
      with Cons.prems(2) have "c = x \<or> c \<in> set l0" by simp
      then show ?thesis using False Cons.IH [of l0] sp by auto
    next
      assume "l \<in> set ls"
      then show ?thesis using Cons.IH [of l] Cons.prems(2) sp by auto
    qed
  qed
qed

lemma lf_only_lines:
  assumes "lf_only s" "l \<in> set (split_on 10 s)"
  shows "\<not> list_ex is_line_terminator l"
proof -
  have "\<not> is_line_terminator c" if "c \<in> set l" for c
    using split_on_set [OF assms(2) that] assms(1) unfolding lf_only_def by blast
  then show ?thesis by (auto simp: list_ex_iff)
qed

lemma sections_absent:
  assumes "k \<noteq> []" "\<forall>l\<in>set (split_on 10 body). \<forall>nm. section_match l = Some nm \<longrightarrow> trim nm \<noteq> k"
  shows "parseIssueSections body k = None"
proof -
  have "(case sections_loop (split_on 10 body) Map.empty [] [] of
          (s', c', ct') \<Rightarrow> save_section s' c' ct') k = Map.empty k"
    using assms by (intro sections_loop_preserve) auto
  then show ?thesis by (simp add: parseIssueSections_def)
qed

lemma section_cases:
  "no_section ls k \<or> (\<exists>v. section_text ls k v)"
proof (cases "\<exists>l\<in>set ls. heading_line l k")
  case False
  then show ?thesis by (simp add: no_section_def)
next
  case True
  then obtain pre h rest where ls: "ls = pre @ h # rest" and h: "heading_line h k"
    and rest: "\<forall>l\<in>set rest. \<not> heading_line l k"
    using split_list_last_prop [of ls "\<lambda>l. heading_line l k"] by blast
  let ?P = "\<lambda>l. \<not> (\<exists>k'. heading_line l k')"
  let ?cs = "takeWhile ?P rest" and ?post = "dropWhile ?P rest"
  have 1: "ls = pre @ h # ?cs @ ?post" using ls by simp
  have 2: "\<forall>l\<in>set ?cs. ?P l" by (auto dest: set_takeWhileD)
  have 3: "?post = [] \<or> (\<exists>k'. heading_line (hd ?post) k')"
    using hd_dropWhile [of ?P rest] by blast
  have 4: "\<forall>l\<in>set ?post. \<not> heading_line l k"
    using rest by (auto dest: set_dropWhileD)
  from 1 h 2 3 4 have "section_text ls k (trim (join [10] ?cs))"
    unfolding section_text_def by blast
  then show ?thesis by blast
qed

lemma section_text_value:
  assumes lf: "lf_only body" and k: "k \<noteq> []" "k \<noteq> asc ''__proto__''"
    and s: "section_text (split_on 10 body) k v"
  shows "parseIssueSections body k = Some v"
proof -
  from s obtain pre h cs post where ls: "split_on 10 body = pre @ h # cs @ post"
    and h: "heading_line h k"
    and cs: "\<forall>l\<in>set cs. \<not> (\<exists>k'. heading_line l k')"
    and post: "post = [] \<or> (\<exists>k'. heading_line (hd post) k')"
    and later: "\<forall>l\<in>set post. \<not> heading_line l k"
    and v: "v = trim (join [10] cs)"
    unfolding section_text_def by blast
  have sl: "\<not> list_ex is_line_terminator l" if "l \<in> set (split_on 10 body)" for l
    using lf that by (rule lf_only_lines)
  obtain nm where nm: "section_match h = Some nm" "trim nm = k"
    using heading_line_iff [of h k] sl [of h] h ls by auto
  have cs': "\<forall>l\<in>set cs. section_match l = None"
    using cs not_heading_iff sl ls by auto
  have post': "post = [] \<or> section_match (hd post) \<noteq> None"
  proof (cases post)
    case Nil
    then show ?thesis by simp
  next
    case (Cons p ps)
    with post have "\<exists>k'. heading_line p k'" by simp
    moreover have "\<not> list_ex is_line_terminator p" using sl [of p] ls Cons by simp
    ultimately show ?thesis using not_heading_iff [of p] Cons by simp
  qed
  have later': "\<forall>l\<in>set post. \<forall>nm'. section_match l = Some nm' \<longrightarrow> trim nm' \<noteq> k"
  proof (intro ballI allI impI)
    fix l nm' assume "l \<in> set post" "section_match l = Some nm'"
    moreover from this have "\<not> list_ex is_line_terminator l" using sl [of l] ls by simp
    ultimately show "trim nm' \<noteq> k" using heading_line_iff [of l k] later by blast
  qed
  show ?thesis
    unfolding v using ls nm k cs' post' later' by (rule section_content)
qed

lemma no_section_value:
  assumes lf: "lf_only body" and k: "k \<noteq> []" and n: "no_section (split_on 10 body) k"
  shows "parseIssueSections body k = None"
proof (rule sections_absent [OF k], intro ballI allI impI)
  fix l nm assume l: "l \<in> set (split_on 10 body)" and m: "section_match l = Some nm"
  have "\<not> list_ex is_line_terminator l" using lf l by (rule lf_only_lines)
  from heading_line_iff [OF this, of "trim nm"] m have "heading_line l (trim nm)" by blast
  with n l show "trim nm \<noteq> k" unfolding no_section_def by blast
qed

lemma heading_line_code:
  "\<not> list_ex is_line_terminator l \<Longrightarrow>
     heading_line l k \<longleftrightarrow> (case section_match l of Some nm \<Rightarrow> trim nm = k | None \<Rightarrow> False)"
  using heading_line_iff [of l k] by (auto split: option.splits)

section \<open>Claims\<close>

text \<open>
  C8. Feedback command detection knows exactly the six tokens /regenerate, /shorter,
  /longer, /casual, /formal and /publish, and tests each by substring containment
  (the token occurs somewhere in the comment body). It returns the first token of that
  list, in the listed order, that occurs in the body, and nothing (undefined) when none
  occurs. So a body that contains /shorter and /casual, and not the earlier-listed
  /regenerate, resolves to /shorter wherever the two stand in the text; the comment
  "/casual please, and /shorter" does.
\<close>

theorem C8_parseCommand_first_listed:
  "commands = [asc ''/regenerate'', asc ''/shorter'', asc ''/longer'', asc ''/casual'',
               asc ''/formal'', asc ''/publish'']
   \<and> parseCommand body = find (\<lambda>cmd. \<exists>ps ss. body = ps @ cmd @ ss) commands
   \<and> ((\<forall>cmd \<in> set commands. \<not> (\<exists>ps ss. body = ps @ cmd @ ss)) \<longleftrightarrow> parseCommand body = None)
   \<and> ((\<exists>ps ss. body = ps @ asc ''/shorter'' @ ss) \<and> (\<exists>ps ss. body = ps @ asc ''/casual'' @ ss)
        \<and> \<not> (\<exists>ps ss. body = ps @ asc ''/regenerate'' @ ss)
       \<longrightarrow> parseCommand body = Some (asc ''/shorter''))
   \<and> parseCommand (asc ''/casual please, and /shorter'') = Some (asc ''/shorter'')"
proof -
  have rule: "parseCommand body = find (\<lambda>cmd. \<exists>ps ss. body = ps @ cmd @ ss) commands"
    by (simp add: parseCommand_def first_included_find includes_js_iff)
  have none: "(\<forall>cmd \<in> set commands. \<not> (\<exists>ps ss. body = ps @ cmd @ ss)) \<longleftrightarrow> parseCommand body = None"
    unfolding rule by (auto simp: find_None_iff)
  have both: "(\<exists>ps ss. body = ps @ asc ''/shorter'' @ ss) \<and> (\<exists>ps ss. body = ps @ asc ''/casual'' @ ss)
        \<and> \<not> (\<exists>ps ss. body = ps @ asc ''/regenerate'' @ ss)
       \<longrightarrow> parseCommand body = Some (asc ''/shorter'')"
    by (simp add: parseCommand_def commands_def includes_js_iff)
  have ex: "parseCommand (asc ''/casual please, and /shorter'') = Some (asc ''/shorter'')"
    by (simp add: parseCommand_def commands_def)
  show ?thesis using rule none both ex by (simp add: commands_def)
qed

theorem C8_parseCommand_first_listed_witness:
  "(\<exists>ps ss. asc ''/casual /shorter'' = ps @ asc ''/shorter'' @ ss)
   \<and> (\<exists>ps ss. asc ''/casual /shorter'' = ps @ asc ''/casual'' @ ss)
   \<and> \<not> (\<exists>ps ss. asc ''/casual /shorter'' = ps @ asc ''/regenerate'' @ ss)
   \<and> parseCommand (asc ''/casual /shorter'') = Some (asc ''/shorter'')
   \<and> parseCommand (asc ''thanks'') = None"
proof -
  have a: "includes_js (asc ''/casual /shorter'') (asc ''/shorter'')" by simp
  have b: "includes_js (asc ''/casual /shorter'') (asc ''/casual'')" by simp
  have c: "\<not> includes_js (asc ''/casual /shorter'') (asc ''/regenerate'')" by simp
  have d: "\<forall>cmd \<in> set commands. \<not> includes_js (asc ''thanks'') cmd"
    by (simp add: commands_def)
  from a b c d show ?thesis
    using C8_parseCommand_first_listed [of "asc ''/casual /shorter''"]
      C8_parseCommand_first_listed [of "asc ''thanks''"]
    unfolding includes_js_iff by blast
qed


text \<open>
  C5 (as amended). Take an issue whose body has line feeds as its only line terminators
  (no carriage return, U+2028 or U+2029), and cut the body at the line feeds. A heading
  line of name N is a line made of "##", one or more white-space characters and a
  non-empty rest whose trimmed text is N. The content of the section N is the trimmed
  text of the lines after the last heading line of name N, up to the next heading line
  of any name or the end of the body. If the section U+30C6 U+30FC U+30DE (the localized
  "theme") has non-empty content, the theme is that content. Otherwise, if the section
  "theme" has non-empty content, the theme is that content. Otherwise (each of the two
  sections absent or empty) the theme is the issue title with a leading label
  U+8A18 U+4E8B U+4F5C U+6210 followed by an ASCII or full-width colon, and the white space
  after it, removed; a title that does not start so is taken unchanged, so no prefix
  "article:" is removed. Every name is either absent or has one content, so the three
  cases cover every such issue. On a line without line terminator the extractor's
  heading pattern accepts exactly the heading lines, with that name.
\<close>

theorem C5_theme_selection:
  "(lf_only (body_text issue) \<longrightarrow>
      (\<forall>v. section_text (split_on 10 (body_text issue)) sec_theme v \<and> v \<noteq> []
          \<longrightarrow> theme (parseIssueToArticleRequest issue) = v)
      \<and> (\<forall>v. (no_section (split_on 10 (body_text issue)) sec_theme
                \<or> section_text (split_on 10 (body_text issue)) sec_theme [])
              \<and> section_text (split_on 10 (body_text issue)) (asc ''theme'') v \<and> v \<noteq> []
          \<longrightarrow> theme (parseIssueToArticleRequest issue) = v)
      \<and> ((no_section (split_on 10 (body_text issue)) sec_theme
              \<or> section_text (split_on 10 (body_text issue)) sec_theme [])
           \<and> (no_section (split_on 10 (body_text issue)) (asc ''theme'')
              \<or> section_text (split_on 10 (body_text issue)) (asc ''theme'') [])
          \<longrightarrow> theme (parseIssueToArticleRequest issue) = strip_title_label (issue_title issue)))
   \<and> (\<forall>ls k. no_section ls k \<or> (\<exists>v. section_text ls k v))
   \<and> (\<forall>l k. \<not> list_ex is_line_terminator l \<longrightarrow>
          ((\<exists>nm. section_match l = Some nm \<and> trim nm = k) \<longleftrightarrow> heading_line l k))
   \<and> (\<forall>c w rest. (c = 58 \<or> c = 65306) \<and> (\<forall>x\<in>set w. is_space x) \<and> (rest = [] \<or> \<not> is_space (hd rest))
        \<longrightarrow> strip_title_label (title_label @ c # w @ rest) = rest)
   \<and> (\<forall>t. \<not> prefix (title_label @ [58]) t \<and> \<not> prefix (title_label @ [65306]) t
        \<longrightarrow> strip_title_label t = t)"
proof (intro conjI)
  let ?b = "body_text issue"
  let ?L = "split_on 10 ?b"
  let ?secs = "parseIssueSections ?b"
  let ?r = "parseIssueToArticleRequest issue"
  have th1: "theme ?r
      = or_str (or_js (?secs sec_theme) (?secs (asc ''theme''))) (strip_title_label (issue_title issue))"
    by (simp add: parseIssueToArticleRequest_def Let_def)
  have kj: "sec_theme \<noteq> []" "sec_theme \<noteq> asc ''__proto__''"
    and ke: "asc ''theme'' \<noteq> []" "asc ''theme'' \<noteq> asc ''__proto__''"
    by (simp_all add: sec_theme_def)
  show "lf_only ?b \<longrightarrow>
      (\<forall>v. section_text ?L sec_theme v \<and> v \<noteq> [] \<longrightarrow> theme ?r = v)
      \<and> (\<forall>v. (no_section ?L sec_theme \<or> section_text ?L sec_theme [])
              \<and> section_text ?L (asc ''theme'') v \<and> v \<noteq> []
          \<longrightarrow> theme ?r = v)
      \<and> ((no_section ?L sec_theme \<or> section_text ?L sec_theme [])
           \<and> (no_section ?L (asc ''theme'') \<or> section_text ?L (asc ''theme'') [])
          \<longrightarrow> theme ?r = strip_title_label (issue_title issue))"
  proof (intro impI conjI allI)
    fix v
    assume lf: "lf_only ?b" and h: "section_text ?L sec_theme v \<and> v \<noteq> []"
    then have "?secs sec_theme = Some v" using section_text_value [OF lf kj] by blast
    with h show "theme ?r = v" unfolding th1 by (simp add: or_str_def or_js_def)
  next
    fix v
    assume lf: "lf_only ?b"
      and h: "(no_section ?L sec_theme \<or> section_text ?L sec_theme [])
              \<and> section_text ?L (asc ''theme'') v \<and> v \<noteq> []"
    then have j: "?secs sec_theme = None \<or> ?secs sec_theme = Some []"
      using section_text_value [OF lf kj] no_section_value [OF lf kj(1)] by blast
    from h have e: "?secs (asc ''theme'') = Some v"
      using section_text_value [OF lf ke] by blast
    from j e h show "theme ?r = v" unfolding th1 by (auto simp: or_str_def or_js_def)
  next
    assume lf: "lf_only ?b"
      and h: "(no_section ?L sec_theme \<or> section_text ?L sec_theme [])
           \<and> (no_section ?L (asc ''theme'') \<or> section_text ?L (asc ''theme'') [])"
    then have j: "?secs sec_theme = None \<or> ?secs sec_theme = Some []"
      using section_text_value [OF lf kj] no_section_value [OF lf kj(1)] by blast
    from h have e: "?secs (asc ''theme'') = None \<or> ?secs (asc ''theme'') = Some []"
      using section_text_value [OF lf ke] no_section_value [OF lf ke(1)] by blast
    from j e show "theme ?r = strip_title_label (issue_title issue)"
      unfolding th1 by (auto simp: or_str_def or_js_def)
  qed
  show "\<forall>ls k. no_section ls k \<or> (\<exists>v. section_text ls k v)"
    using section_cases by blast
  show "\<forall>l k. \<not> list_ex is_line_terminator l \<longrightarrow>
          ((\<exists>nm. section_match l = Some nm \<and> trim nm = k) \<longleftrightarrow> heading_line l k)"
    using heading_line_iff by blast
  show "\<forall>c w rest. (c = 58 \<or> c = 65306) \<and> (\<forall>x\<in>set w. is_space x) \<and> (rest = [] \<or> \<not> is_space (hd rest))
        \<longrightarrow> strip_title_label (title_label @ c # w @ rest) = rest"
    using strip_title_label_prefix by blast
  show "\<forall>t. \<not> prefix (title_label @ [58]) t \<and> \<not> prefix (title_label @ [65306]) t
        \<longrightarrow> strip_title_label t = t"
    using strip_title_label_other by blast
qed

theorem C5_theme_selection_witness:
  "lf_only (asc ''intro\<newline>##'' @ [9, 32] @ sec_theme @ asc '' \<newline>  My theme \<newline>\<newline>## tone\<newline>casual'')
   \<and> section_text (split_on 10 (asc ''intro\<newline>##'' @ [9, 32] @ sec_theme @ asc '' \<newline>  My theme \<newline>\<newline>## tone\<newline>casual''))
        sec_theme (asc ''My theme'')
   \<and> theme (parseIssueToArticleRequest (example_issue (asc ''t'')
       (Some (asc ''intro\<newline>##'' @ [9, 32] @ sec_theme @ asc '' \<newline>  My theme \<newline>\<newline>## tone\<newline>casual''))))
     = asc ''My theme''
   \<and> no_section (split_on 10 (asc ''no\<newline>sections'')) sec_theme
   \<and> no_section (split_on 10 (asc ''no\<newline>sections'')) (asc ''theme'')
   \<and> theme (parseIssueToArticleRequest (example_issue (title_label @ [65306, 32] @ asc ''AI'')
       (Some (asc ''no\<newline>sections''))))
     = asc ''AI''"
proof -
  let ?bA = "asc ''intro\<newline>##'' @ [9, 32] @ sec_theme @ asc '' \<newline>  My theme \<newline>\<newline>## tone\<newline>casual''"
  let ?A = "example_issue (asc ''t'') (Some ?bA)"
  let ?bC = "asc ''no\<newline>sections''"
  let ?C = "example_issue (title_label @ [65306, 32] @ asc ''AI'') (Some ?bC)"
  have bA: "body_text ?A = ?bA" and bC: "body_text ?C = ?bC"
    by (simp_all add: example_issue_def body_text_def)
  have lfA: "lf_only ?bA" and lfC: "lf_only ?bC"
    by (simp_all add: lf_only_def sec_theme_def is_line_terminator_def)
  have LA: "split_on 10 ?bA = [asc ''intro''] @ (asc ''##'' @ [9, 32] @ sec_theme @ asc '' '')
      # [asc ''  My theme '', []] @ [asc ''## tone'', asc ''casual'']"
    by (simp add: sec_theme_def)
  have LC: "split_on 10 ?bC = [asc ''no'', asc ''sections'']"
    by simp
  have h: "heading_line (asc ''##'' @ [9, 32] @ sec_theme @ asc '' '') sec_theme"
    by (subst heading_line_code)
      (simp_all add: sec_theme_def section_match_def trim_def is_space_def is_line_terminator_def
        Let_def)
  have c: "\<forall>l\<in>set [asc ''  My theme '', []]. \<not> (\<exists>k'. heading_line l k')"
    using not_heading_iff [of "asc ''  My theme ''"] not_heading_iff [of "[]"]
    by (simp add: section_match_def is_line_terminator_def)
  have p: "\<exists>k'. heading_line (hd [asc ''## tone'', asc ''casual'']) k'"
    using not_heading_iff [of "asc ''## tone''"]
    by (simp add: section_match_def is_line_terminator_def is_space_def Let_def)
  have l: "\<forall>l\<in>set [asc ''## tone'', asc ''casual'']. \<not> heading_line l sec_theme"
    using heading_line_code [of "asc ''## tone''" sec_theme] heading_line_code [of "asc ''casual''" sec_theme]
    by (simp add: section_match_def trim_def is_line_terminator_def is_space_def Let_def sec_theme_def)
  have v: "asc ''My theme'' = trim (join [10] [asc ''  My theme '', []])"
    by (simp add: trim_def is_space_def)
  have sA: "section_text (split_on 10 ?bA) sec_theme (asc ''My theme'')"
    unfolding section_text_def LA using h c p l v by blast
  have nC: "no_section (split_on 10 ?bC) sec_theme" "no_section (split_on 10 ?bC) (asc ''theme'')"
    unfolding no_section_def LC
    using heading_line_code [of "asc ''no''"] heading_line_code [of "asc ''sections''"]
    by (simp_all add: section_match_def is_line_terminator_def)
  have ne: "asc ''My theme'' \<noteq> []" by simp
  have 1: "theme (parseIssueToArticleRequest ?A) = asc ''My theme''"
    using C5_theme_selection [of ?A, THEN conjunct1, THEN mp, THEN conjunct1, rule_format, of "asc ''My theme''"]
      lfA sA ne unfolding bA by blast
  have t: "issue_title ?C = title_label @ 65306 # [32] @ asc ''AI''"
    by (simp add: example_issue_def)
  have "theme (parseIssueToArticleRequest ?C) = strip_title_label (issue_title ?C)"
    using C5_theme_selection [of ?C, THEN conjunct1, THEN mp, THEN conjunct2, THEN conjunct2]
      lfC nC unfolding bC by blast
  moreover have "strip_title_label (title_label @ 65306 # [32] @ asc ''AI'') = asc ''AI''"
    using C5_theme_selection [of ?C, THEN conjunct2, THEN conjunct2, THEN conjunct2, THEN conjunct1,
        rule_format, of 65306 "[32]" "asc ''AI''"]
    by (simp add: is_space_def)
  ultimately have 3: "theme (parseIssueToArticleRequest ?C) = asc ''AI''"
    unfolding t by simp
  from lfA sA 1 nC 3 show ?thesis by (intro conjI)
qed

text \<open>
  C5 as stated fails: with no theme section, the title "article: AI" is taken whole,
  the prefix "article:" stays; and an issue whose localized theme section is empty gets
  its theme from the title, not from the (empty) section.
\<close>

theorem C5_article_prefix_counterexample:
  "parseIssueSections (body_text (example_issue (asc ''article: AI'') None)) sec_theme = None
   \<and> parseIssueSections (body_text (example_issue (asc ''article: AI'') None)) (asc ''theme'') = None
   \<and> theme (parseIssueToArticleRequest (example_issue (asc ''article: AI'') None))
       = asc ''article: AI''
   \<and> theme (parseIssueToArticleRequest (example_issue (asc ''t'')
         (Some (asc ''## '' @ sec_theme @ asc ''\<newline> \<newline>'')))) = asc ''t''"
  by (simp add: parseIssueToArticleRequest_def example_issue_def or_str_def or_js_def
      strip_title_label_def title_label_def sec_theme_def eval_sections)

text \<open>
  C9. The Request Extractor is a total function of the issue: its model has no error
  branch, since no operation it performs on a string can raise, a \<open>null\<close> body is
  replaced by the empty string, and its loops run over the finite lists of lines and
  characters (\<open>match_all_urls\<close> is shown to terminate). For every issue it returns a
  request with every field set. A field whose section is absent takes its default: tone
  casual, target length 2000, empty audience, empty instructions; a body without "http"
  gives the empty reference list; and a \<open>null\<close> or empty body gives all defaults at
  once, with the theme taken from the title.
\<close>

theorem C9_extractor_defaults:
  "(\<exists>a t n i rs. req_targetAudience (parseIssueToArticleRequest issue) = Some a
        \<and> req_tone (parseIssueToArticleRequest issue) = Some t
        \<and> targetLength (parseIssueToArticleRequest issue) = Some n
        \<and> additionalInstructions (parseIssueToArticleRequest issue) = Some i
        \<and> references (parseIssueToArticleRequest issue) = Some rs)
   \<and> (parseIssueSections (body_text issue) sec_tone = None
        \<and> parseIssueSections (body_text issue) (asc ''tone'') = None
       \<longrightarrow> req_tone (parseIssueToArticleRequest issue) = Some Casual)
   \<and> (parseIssueSections (body_text issue) sec_length = None
        \<and> parseIssueSections (body_text issue) (asc ''length'') = None
       \<longrightarrow> targetLength (parseIssueToArticleRequest issue) = Some 2000)
   \<and> (parseIssueSections (body_text issue) sec_target = None
        \<and> parseIssueSections (body_text issue) (asc ''target'') = None
       \<longrightarrow> req_targetAudience (parseIssueToArticleRequest issue) = Some [])
   \<and> (parseIssueSections (body_text issue) sec_extra = None
        \<and> parseIssueSections (body_text issue) sec_refer = None
       \<longrightarrow> additionalInstructions (parseIssueToArticleRequest issue) = Some [])
   \<and> (\<not> (\<exists>ps ss. body_text issue = ps @ asc ''http'' @ ss)
       \<longrightarrow> references (parseIssueToArticleRequest issue) = Some [])
   \<and> (issue_body issue = None \<or> issue_body issue = Some []
       \<longrightarrow> parseIssueToArticleRequest issue =
            \<lparr> theme = strip_title_label (issue_title issue), req_targetAudience = Some [],
              req_tone = Some Casual, targetLength = Some 2000,
              additionalInstructions = Some [], references = Some [] \<rparr>)"
proof -
  let ?secs = "parseIssueSections (body_text issue)"
  let ?r = "parseIssueToArticleRequest issue"
  have set: "\<exists>a t n i rs. req_targetAudience ?r = Some a \<and> req_tone ?r = Some t
        \<and> targetLength ?r = Some n \<and> additionalInstructions ?r = Some i \<and> references ?r = Some rs"
    by (simp add: parseIssueToArticleRequest_def Let_def)
  have tone: "?secs sec_tone = None \<and> ?secs (asc ''tone'') = None \<longrightarrow> req_tone ?r = Some Casual"
    by (simp add: parseIssueToArticleRequest_def Let_def toneText_def tone_of_text_def
        or_str_def or_js_def kw_business_def kw_technical_def)
  have len: "?secs sec_length = None \<and> ?secs (asc ''length'') = None \<longrightarrow> targetLength ?r = Some 2000"
    by (simp add: parseIssueToArticleRequest_def Let_def lengthText_def length_of_text_def
        or_str_def or_js_def first_digits_def)
  have aud: "?secs sec_target = None \<and> ?secs (asc ''target'') = None \<longrightarrow> req_targetAudience ?r = Some []"
    by (simp add: parseIssueToArticleRequest_def Let_def or_str_def or_js_def)
  have ins: "?secs sec_extra = None \<and> ?secs sec_refer = None \<longrightarrow> additionalInstructions ?r = Some []"
    by (simp add: parseIssueToArticleRequest_def Let_def or_str_def or_js_def)
  have refs: "\<not> (\<exists>ps ss. body_text issue = ps @ asc ''http'' @ ss) \<longrightarrow> references ?r = Some []"
    using no_http_no_urls [of "body_text issue"]
    by (simp add: parseIssueToArticleRequest_def Let_def extractReferences_def includes_js_iff)
  have bt: "issue_body issue = None \<or> issue_body issue = Some [] \<Longrightarrow> body_text issue = []"
    by (auto simp: body_text_def)
  have null: "issue_body issue = None \<or> issue_body issue = Some []
       \<longrightarrow> ?r = \<lparr> theme = strip_title_label (issue_title issue), req_targetAudience = Some [],
              req_tone = Some Casual, targetLength = Some 2000,
              additionalInstructions = Some [], references = Some [] \<rparr>"
  proof
    assume h: "issue_body issue = None \<or> issue_body issue = Some []"
    show "?r = \<lparr> theme = strip_title_label (issue_title issue), req_targetAudience = Some [],
              req_tone = Some Casual, targetLength = Some 2000,
              additionalInstructions = Some [], references = Some [] \<rparr>"
      unfolding parseIssueToArticleRequest_def bt [OF h]
      by (simp add: Let_def parseIssueSections_empty toneText_def tone_of_text_def
          lengthText_def length_of_text_def or_str_def or_js_def first_digits_def
          kw_business_def kw_technical_def extractReferences_def)
  qed
  from set tone len aud ins refs null show ?thesis by blast
qed


theorem C9_extractor_defaults_witness:
  "parseIssueToArticleRequest (example_issue (asc ''A title'') None) =
     \<lparr> theme = asc ''A title'', req_targetAudience = Some [], req_tone = Some Casual,
       targetLength = Some 2000, additionalInstructions = Some [], references = Some [] \<rparr>
   \<and> req_tone (parseIssueToArticleRequest (example_issue [] (Some (asc ''no\<newline>## \<newline>sections'')))) = Some Casual
   \<and> targetLength (parseIssueToArticleRequest (example_issue [] (Some (asc ''no\<newline>## \<newline>sections'')))) = Some 2000
   \<and> references (parseIssueToArticleRequest (example_issue [] (Some (asc ''no\<newline>## \<newline>sections'')))) = Some []"
proof -
  let ?A = "example_issue (asc ''A title'') None"
  let ?B = "example_issue [] (Some (asc ''no\<newline>## \<newline>sections''))"
  have a: "issue_body ?A = None \<or> issue_body ?A = Some []"
    by (simp add: example_issue_def)
  have t: "strip_title_label (issue_title ?A) = asc ''A title''"
    by (simp add: example_issue_def strip_title_label_def title_label_def)
  have b: "parseIssueSections (body_text ?B) k = None" for k
    by (simp add: example_issue_def eval_sections)
  have h: "\<not> (\<exists>ps ss. body_text ?B = ps @ asc ''http'' @ ss)"
    unfolding includes_js_iff [symmetric] by (simp add: example_issue_def body_text_def)
  note A = C9_extractor_defaults [of ?A] and B = C9_extractor_defaults [of ?B]
  have 1: "parseIssueToArticleRequest ?A =
     \<lparr> theme = asc ''A title'', req_targetAudience = Some [], req_tone = Some Casual,
       targetLength = Some 2000, additionalInstructions = Some [], references = Some [] \<rparr>"
    using A [THEN conjunct2, THEN conjunct2, THEN conjunct2, THEN conjunct2, THEN conjunct2,
        THEN conjunct2, rule_format, OF a] unfolding t .
  have 2: "req_tone (parseIssueToArticleRequest ?B) = Some Casual"
    using B [THEN conjunct2, THEN conjunct1] b by simp
  have 3: "targetLength (parseIssueToArticleRequest ?B) = Some 2000"
    using B [THEN conjunct2, THEN conjunct2, THEN conjunct1] b by simp
  have 4: "references (parseIssueToArticleRequest ?B) = Some []"
    using B [THEN conjunct2, THEN conjunct2, THEN conjunct2, THEN conjunct2, THEN conjunct2,
        THEN conjunct1] h by simp
  from 1 2 3 4 show ?thesis by (intro conjI)
qed



text \<open>
  C7 as stated fails: the run of a URL is not made of non-bracket, non-parenthesis
  characters. On the body "http://a.com/(x" the match is the whole text, whose run holds
  an opening parenthesis.
\<close>

theorem C7_reference_pattern_counterexample:
  "extractReferences (asc ''http://a.com/(x'') = [asc ''http://a.com/(x'']
   \<and> \<not> list_all spec_url_char (drop 7 (asc ''http://a.com/(x''))"
  by (simp add: extractReferences_def url_at_def url_stop_def is_space_def spec_url_char_def)

text \<open>
  C7 (as amended). Reference extraction scans the entire body for substrings made of
  "http://" or "https://" followed by a non-empty run of characters other than white
  space and the three closing delimiters ")", ">" and "]" (opening brackets and
  parentheses belong to the run). It returns all matches in order of appearance with
  duplicates retained: the body is the matches in that order with gaps between them,
  every match runs up to the end of the body or to one of the excluded characters, and no
  gap holds the start of a URL. The body "see http://a.com/x and (https://b.com/y)"
  yields "http://a.com/x" and "https://b.com/y" in that order.
\<close>

theorem C7_extractReferences:
  "extractReferences (asc ''see http://a.com/x and (https://b.com/y)'')
     = [asc ''http://a.com/x'', asc ''https://b.com/y'']
   \<and> extractReferences (asc ''http://a.b <http://a.b>'') = [asc ''http://a.b'', asc ''http://a.b'']
   \<and> (\<forall>c. url_stop c \<longleftrightarrow> is_space c \<or> c = 41 \<or> c = 62 \<or> c = 93)
   \<and> (\<forall>u\<in>set (extractReferences body).
         \<exists>run. (u = asc ''http://'' @ run \<or> u = asc ''https://'' @ run) \<and> run \<noteq> []
           \<and> (\<forall>c\<in>set run. \<not> url_stop c))
   \<and> (\<exists>gaps. length gaps = Suc (length (extractReferences body))
         \<and> body = weave gaps (extractReferences body)
         \<and> (\<forall>g\<in>set (tl gaps). g = [] \<or> url_stop (hd g))
         \<and> (\<forall>g\<in>set gaps. \<forall>ps x ss.
               g = ps @ asc ''http://'' @ x # ss \<or> g = ps @ asc ''https://'' @ x # ss
               \<longrightarrow> url_stop x))"
proof (intro conjI)
  show "extractReferences (asc ''see http://a.com/x and (https://b.com/y)'')
     = [asc ''http://a.com/x'', asc ''https://b.com/y'']"
    by (simp add: extractReferences_def url_at_def url_stop_def is_space_def)
  show "extractReferences (asc ''http://a.b <http://a.b>'') = [asc ''http://a.b'', asc ''http://a.b'']"
    by (simp add: extractReferences_def url_at_def url_stop_def is_space_def)
  show "\<forall>c. url_stop c \<longleftrightarrow> is_space c \<or> c = 41 \<or> c = 62 \<or> c = 93"
    by (simp add: url_stop_def)
  show "\<forall>u\<in>set (extractReferences body).
         \<exists>run. (u = asc ''http://'' @ run \<or> u = asc ''https://'' @ run) \<and> run \<noteq> []
           \<and> (\<forall>c\<in>set run. \<not> url_stop c)"
    unfolding extractReferences_def by (rule ballI) (rule match_all_urls_shape)
  show "\<exists>gaps. length gaps = Suc (length (extractReferences body))
         \<and> body = weave gaps (extractReferences body)
         \<and> (\<forall>g\<in>set (tl gaps). g = [] \<or> url_stop (hd g))
         \<and> (\<forall>g\<in>set gaps. \<forall>ps x ss.
               g = ps @ asc ''http://'' @ x # ss \<or> g = ps @ asc ''https://'' @ x # ss
               \<longrightarrow> url_stop x)"
    unfolding extractReferences_def by (rule match_all_urls_gaps)
qed

theorem C7_extractReferences_witness:
  "extractReferences (asc ''(http://a.com/[1])'') = [asc ''http://a.com/[1'']
   \<and> (\<exists>run. asc ''http://a.com/[1'' = asc ''http://'' @ run \<and> run \<noteq> []
         \<and> list_all (\<lambda>c. \<not> url_stop c) run)
   \<and> asc ''(http://a.com/[1])'' = weave [asc ''('', asc ''])''] [asc ''http://a.com/[1'']"
proof -
  let ?b = "asc ''(http://a.com/[1])''" and ?u = "asc ''http://a.com/[1''"
  have e: "extractReferences ?b = [?u]"
    by (simp add: extractReferences_def url_at_def url_stop_def is_space_def)
  have m: "?u \<in> set (extractReferences ?b)"
    unfolding e by (rule list.set_intros)
  note sh = C7_extractReferences [of ?b, THEN conjunct2, THEN conjunct2, THEN conjunct2,
      THEN conjunct1, THEN bspec, OF m]
  then obtain run where r: "?u = asc ''http://'' @ run \<or> ?u = asc ''https://'' @ run"
    "run \<noteq> []" "\<forall>c\<in>set run. \<not> url_stop c"
    by (elim exE conjE)
  have "?u \<noteq> asc ''https://'' @ run" by simp
  with r(1) have "?u = asc ''http://'' @ run" by (elim disjE) (assumption, erule notE)
  moreover from r(3) have "list_all (\<lambda>c. \<not> url_stop c) run"
    unfolding list_all_iff .
  ultimately have "\<exists>run. ?u = asc ''http://'' @ run \<and> run \<noteq> [] \<and> list_all (\<lambda>c. \<not> url_stop c) run"
    using r(2) by (intro exI conjI)
  moreover have "?b = weave [asc ''('', asc ''])''] [?u]"
    by simp
  ultimately show ?thesis using e by (intro conjI)
qed

text \<open>
  C4 as stated fails on an input that starts with white space: the splitter trims the
  whole input before it cuts it into lines. The input made of an empty line, "foo" and
  "bar" has no heading line and its first line is empty, yet the title is "foo" and the
  body is "bar".
\<close>

theorem C4_leading_blank_line_counterexample:
  "split_on 10 (asc ''\<newline>foo\<newline>bar'') = [[], asc ''foo'', asc ''bar'']
   \<and> \<not> list_ex (\<lambda>l. prefix (asc ''# '') (trim l)) (split_on 10 (asc ''\<newline>foo\<newline>bar''))
   \<and> parseArticleContent (asc ''\<newline>foo\<newline>bar'') = (asc ''foo'', asc ''bar'')
   \<and> fst (parseArticleContent (asc ''\<newline>foo\<newline>bar''))
        \<noteq> dropWhile is_space (dropWhile (\<lambda>c. c = 35) (hd (split_on 10 (asc ''\<newline>foo\<newline>bar''))))"
  by (simp add: parseArticleContent_def trim_def strip_hashes_def is_space_def)

text \<open>
  C4 (as amended). The title/body splitter first removes the white space at both ends
  of the input and works on the lines of what is left. If some line, once trimmed,
  begins with "# ", then for the first such line the title is the text of the trimmed
  line after the "# " and the white space that follows it, and the body is all lines
  strictly after that line, joined again and trimmed. If no line does, the title is the
  first line with its leading hash characters and the white space after them removed,
  and the body is every line after the first, joined and trimmed. The empty input gives
  the empty title and the empty body; the function has no error branch. "# Hello", an
  empty line, "World" gives title "Hello" and body "World"; "No heading", "more text"
  gives title "No heading" and body "more text".
\<close>

theorem C4_parseArticleContent:
  "(\<forall>i. i < length (split_on 10 (trim text))
        \<and> prefix (asc ''# '') (trim (split_on 10 (trim text) ! i))
        \<and> (\<forall>j<i. \<not> prefix (asc ''# '') (trim (split_on 10 (trim text) ! j)))
      \<longrightarrow> parseArticleContent text =
            (dropWhile is_space (drop 2 (trim (split_on 10 (trim text) ! i))),
             trim (join [10] (drop (i + 1) (split_on 10 (trim text))))))
   \<and> ((\<forall>l\<in>set (split_on 10 (trim text)). \<not> prefix (asc ''# '') (trim l))
      \<longrightarrow> parseArticleContent text =
            (dropWhile is_space (dropWhile (\<lambda>c. c = 35) (hd (split_on 10 (trim text)))),
             trim (join [10] (drop 1 (split_on 10 (trim text))))))
   \<and> parseArticleContent [] = ([], [])
   \<and> parseArticleContent (asc ''# Hello\<newline>\<newline>World'') = (asc ''Hello'', asc ''World'')
   \<and> parseArticleContent (asc ''No heading\<newline>more text'') = (asc ''No heading'', asc ''more text'')"
proof (intro conjI allI impI)
  fix i
  assume "i < length (split_on 10 (trim text))
        \<and> prefix (asc ''# '') (trim (split_on 10 (trim text) ! i))
        \<and> (\<forall>j<i. \<not> prefix (asc ''# '') (trim (split_on 10 (trim text) ! j)))"
  then show "parseArticleContent text =
            (dropWhile is_space (drop 2 (trim (split_on 10 (trim text) ! i))),
             trim (join [10] (drop (i + 1) (split_on 10 (trim text)))))"
    using parseArticleContent_heading [of i "text"] by blast
next
  assume "\<forall>l\<in>set (split_on 10 (trim text)). \<not> prefix (asc ''# '') (trim l)"
  then show "parseArticleContent text =
            (dropWhile is_space (dropWhile (\<lambda>c. c = 35) (hd (split_on 10 (trim text)))),
             trim (join [10] (drop 1 (split_on 10 (trim text)))))"
    by (rule parseArticleContent_no_heading)
next
  show "parseArticleContent [] = ([], [])"
    by (simp add: parseArticleContent_def trim_def strip_hashes_def)
next
  show "parseArticleContent (asc ''# Hello\<newline>\<newline>World'') = (asc ''Hello'', asc ''World'')"
    by (simp add: parseArticleContent_def trim_def strip_heading_mark_def is_space_def)
next
  show "parseArticleContent (asc ''No heading\<newline>more text'') = (asc ''No heading'', asc ''more text'')"
    by (simp add: parseArticleContent_def trim_def strip_hashes_def is_space_def)
qed

theorem C4_parseArticleContent_witness:
  "parseArticleContent (asc ''intro\<newline> #   Hello  \<newline>\<newline>World\<newline># x\<newline>'')
     = (asc ''Hello'', asc ''World\<newline># x'')
   \<and> parseArticleContent (asc ''## Plain \<newline>\<newline>more'') = (asc ''Plain '', asc ''more'')"
proof -
  let ?a = "asc ''intro\<newline> #   Hello  \<newline>\<newline>World\<newline># x\<newline>''"
  let ?b = "asc ''## Plain \<newline>\<newline>more''"
  have la: "split_on 10 (trim ?a) = [asc ''intro'', asc '' #   Hello  '', [], asc ''World'', asc ''# x'']"
    by (simp add: trim_def is_space_def)
  have lb: "split_on 10 (trim ?b) = [asc ''## Plain '', [], asc ''more'']"
    by (simp add: trim_def is_space_def)
  have ha: "1 < length (split_on 10 (trim ?a))
        \<and> prefix (asc ''# '') (trim (split_on 10 (trim ?a) ! 1))
        \<and> (\<forall>j<1. \<not> prefix (asc ''# '') (trim (split_on 10 (trim ?a) ! j)))"
    unfolding la by (simp add: trim_def is_space_def)
  have hb: "\<forall>l\<in>set (split_on 10 (trim ?b)). \<not> prefix (asc ''# '') (trim l)"
    unfolding lb by (simp add: trim_def is_space_def)
  have "parseArticleContent ?a =
            (dropWhile is_space (drop 2 (trim (split_on 10 (trim ?a) ! 1))),
             trim (join [10] (drop (1 + 1) (split_on 10 (trim ?a)))))"
    using C4_parseArticleContent [of ?a, THEN conjunct1, rule_format, OF ha] .
  then have 1: "parseArticleContent ?a = (asc ''Hello'', asc ''World\<newline># x'')"
    unfolding la by (simp add: trim_def is_space_def)
  have "parseArticleContent ?b =
            (dropWhile is_space (dropWhile (\<lambda>c. c = 35) (hd (split_on 10 (trim ?b)))),
             trim (join [10] (drop 1 (split_on 10 (trim ?b)))))"
    using C4_parseArticleContent [of ?b, THEN conjunct2, THEN conjunct1, THEN mp, OF hb] .
  then have 2: "parseArticleContent ?b = (asc ''Plain '', asc ''more'')"
    unfolding lb by (simp add: trim_def is_space_def)
  from 1 2 show ?thesis by (intro conjI)
qed

text \<open>
  C3. Every GeneratedArticle a core operation produces has a wordCount equal to the
  number of non-white-space characters (UTF-16 code units) of its content: the article
  of generateArticle, the article of regenerateWithFeedback (also after the assignment
  in the regeneration workflow), the article the regeneration workflow's loadArticle
  reads from a document, and the article the export workflow's loadArticle reads, with
  or without front matter.
\<close>

theorem C3_wordCount_invariant:
  "(generateArticle request r1 r2 r3 now = Inr a \<longrightarrow> wordCount a = countCharacters (content a))
   \<and> (regenerateWithFeedback fr r1 r2 now = Inr b \<longrightarrow> wordCount b = countCharacters (content b))
   \<and> (regenerate_main fr r1 r2 now = Inr c \<longrightarrow> wordCount c = countCharacters (content c))
   \<and> (loadArticle_regenerate text now = Inr d \<longrightarrow> wordCount d = countCharacters (content d))
   \<and> wordCount (loadArticle_export text now) = countCharacters (content (loadArticle_export text now))
   \<and> countCharacters s = length (filter (\<lambda>c. \<not> is_space c) s)"
proof (intro conjI impI)
  assume "generateArticle request r1 r2 r3 now = Inr a"
  then show "wordCount a = countCharacters (content a)"
    by (auto simp: generateArticle_def split: sum.splits prod.splits)
next
  assume "regenerateWithFeedback fr r1 r2 now = Inr b"
  then show "wordCount b = countCharacters (content b)"
    by (auto simp: regenerateWithFeedback_def split: sum.splits prod.splits)
next
  assume "regenerate_main fr r1 r2 now = Inr c"
  then show "wordCount c = countCharacters (content c)"
    by (auto simp: regenerate_main_def regenerateWithFeedback_def split: sum.splits prod.splits)
next
  assume "loadArticle_regenerate text now = Inr d"
  then show "wordCount d = countCharacters (content d)"
    by (auto simp: loadArticle_regenerate_def Let_def countCharacters_trim split: option.splits)
next
  show "wordCount (loadArticle_export text now) = countCharacters (content (loadArticle_export text now))"
    by (simp add: loadArticle_export_def split: option.splits)
next
  show "countCharacters s = length (filter (\<lambda>c. \<not> is_space c) s)"
    by (simp add: countCharacters_def)
qed

theorem C3_wordCount_invariant_witness:
  "(\<exists>a. generateArticle (parseIssueToArticleRequest (example_issue (asc ''t'') None))
          [OtherBlock, TextBlock (asc ''# T\<newline>\<newline>some  body\<newline>'')] [TextBlock (asc ''sum'')]
          [TextBlock (asc ''x, y'')] (asc ''2025-01-02T03:04:05.678Z'') = Inr a
        \<and> content a = asc ''some  body'' \<and> wordCount a = 8
        \<and> wordCount a = countCharacters (content a))
   \<and> (\<exists>d. loadArticle_regenerate
          (saveArticleAsMarkdown (example_article (asc ''T'') (asc ''c d'') (asc ''s'') []))
          (asc ''2025-01-02T03:04:05.678Z'') = Inr d
        \<and> wordCount d = countCharacters (content d))"
proof -
  let ?now = "asc ''2025-01-02T03:04:05.678Z''"
  let ?g = "generateArticle (parseIssueToArticleRequest (example_issue (asc ''t'') None))
          [OtherBlock, TextBlock (asc ''# T\<newline>\<newline>some  body\<newline>'')] [TextBlock (asc ''sum'')]
          [TextBlock (asc ''x, y'')] ?now"
  have p: "parseArticleContent (asc ''# T\<newline>\<newline>some  body\<newline>'') = (asc ''T'', asc ''some  body'')"
    by (simp add: parseArticleContent_def trim_def strip_heading_mark_def is_space_def)
  obtain a where a: "?g = Inr a" "content a = asc ''some  body''"
    by (simp add: generateArticle_def parseArticleContent_def trim_def strip_heading_mark_def
        is_space_def)
  have "wordCount a = countCharacters (content a)"
    using C3_wordCount_invariant [THEN conjunct1, THEN mp, OF a(1)] .
  moreover have "countCharacters (asc ''some  body'') = 8"
    by (simp add: countCharacters_def is_space_def)
  ultimately have 1: "\<exists>a. ?g = Inr a \<and> content a = asc ''some  body'' \<and> wordCount a = 8
        \<and> wordCount a = countCharacters (content a)"
    using a by auto
  let ?l = "loadArticle_regenerate
          (saveArticleAsMarkdown (example_article (asc ''T'') (asc ''c d'') (asc ''s'') [])) ?now"
  have "frontmatter_match (saveArticleAsMarkdown (example_article (asc ''T'') (asc ''c d'') (asc ''s'') []))
      \<noteq> None"
    by (rule save_has_frontmatter)
  then obtain d where d: "?l = Inr d"
    by (auto simp: loadArticle_regenerate_def Let_def)
  have "wordCount d = countCharacters (content d)"
    using C3_wordCount_invariant [THEN conjunct2, THEN conjunct2, THEN conjunct2, THEN conjunct1,
        THEN mp, OF d] .
  with d have 2: "\<exists>d. ?l = Inr d \<and> wordCount d = countCharacters (content d)" by blast
  from 1 2 show ?thesis by (intro conjI)
qed

text \<open>
  C10. For every FeedbackRequest and every pair of answers of the generation service
  with which regenerateWithFeedback returns an article, the article's metadata is the
  original article's metadata, field for field: issueNumber, tone, targetAudience and
  suggestedTags. Title, content and wordCount come from the new article text, the
  summary from the new summary answer, generatedAt from the clock. For given answers the
  feedback text and the command do not change the result, and the assignment of
  issueNumber that the workflow makes afterwards changes nothing.
\<close>

theorem C10_regenerate_keeps_metadata:
  "(regenerateWithFeedback request r1 r2 now = Inr a \<longrightarrow>
       metadata a = metadata (originalArticle request)
       \<and> issueNumber (metadata a) = issueNumber (metadata (originalArticle request))
       \<and> tone (metadata a) = tone (metadata (originalArticle request))
       \<and> targetAudience (metadata a) = targetAudience (metadata (originalArticle request))
       \<and> suggestedTags (metadata a) = suggestedTags (metadata (originalArticle request))
       \<and> (\<exists>t. extractTextContent r1 = Inr t
              \<and> title a = fst (parseArticleContent t)
              \<and> content a = snd (parseArticleContent t)
              \<and> wordCount a = countCharacters (snd (parseArticleContent t)))
       \<and> extractTextContent r2 = Inr (summary a)
       \<and> generatedAt a = now)
   \<and> regenerateWithFeedback (request\<lparr> feedback := f, command := c \<rparr>) r1 r2 now
       = regenerateWithFeedback request r1 r2 now
   \<and> regenerate_main request r1 r2 now = regenerateWithFeedback request r1 r2 now"
proof (intro conjI impI)
  assume h: "regenerateWithFeedback request r1 r2 now = Inr a"
  then obtain t s where t: "extractTextContent r1 = Inr t" and s: "extractTextContent r2 = Inr s"
    and a: "a = \<lparr> title = fst (parseArticleContent t), content = snd (parseArticleContent t),
                 summary = s, wordCount = countCharacters (snd (parseArticleContent t)),
                 generatedAt = now, metadata = metadata (originalArticle request) \<rparr>"
    by (auto simp: regenerateWithFeedback_def split: sum.splits prod.splits)
  show "metadata a = metadata (originalArticle request)" by (simp add: a)
  then show "issueNumber (metadata a) = issueNumber (metadata (originalArticle request))"
    "tone (metadata a) = tone (metadata (originalArticle request))"
    "targetAudience (metadata a) = targetAudience (metadata (originalArticle request))"
    "suggestedTags (metadata a) = suggestedTags (metadata (originalArticle request))"
    by simp_all
  show "\<exists>t. extractTextContent r1 = Inr t
              \<and> title a = fst (parseArticleContent t)
              \<and> content a = snd (parseArticleContent t)
              \<and> wordCount a = countCharacters (snd (parseArticleContent t))"
    using t by (simp add: a)
  show "extractTextContent r2 = Inr (summary a)" using s by (simp add: a)
  show "generatedAt a = now" by (simp add: a)
next
  show "regenerateWithFeedback (request\<lparr> feedback := f, command := c \<rparr>) r1 r2 now
       = regenerateWithFeedback request r1 r2 now"
    by (auto simp: regenerateWithFeedback_def split: sum.splits prod.splits)
next
  show "regenerate_main request r1 r2 now = regenerateWithFeedback request r1 r2 now"
    by (auto simp: regenerate_main_def regenerateWithFeedback_def split: sum.splits prod.splits)
qed

theorem C10_regenerate_keeps_metadata_witness:
  "\<exists>a. regenerateWithFeedback
          \<lparr> feedback = asc ''make it formal'', command = Some (asc ''/formal''),
            originalArticle = example_article (asc ''Old'') (asc ''old body'') (asc ''s'') [asc ''x''] \<rparr>
          [TextBlock (asc ''# New\<newline>\<newline>new body'')] [TextBlock (asc ''new summary'')]
          (asc ''2025-02-03T00:00:00.000Z'') = Inr a
     \<and> metadata a = \<lparr> issueNumber = 42, tone = asc ''casual'', targetAudience = asc ''devs'',
                       suggestedTags = [asc ''x''] \<rparr>
     \<and> title a = asc ''New'' \<and> content a = asc ''new body''
     \<and> summary a = asc ''new summary'' \<and> generatedAt a = asc ''2025-02-03T00:00:00.000Z''"
proof -
  let ?r = "\<lparr> feedback = asc ''make it formal'', command = Some (asc ''/formal''),
            originalArticle = example_article (asc ''Old'') (asc ''old body'') (asc ''s'') [asc ''x''] \<rparr>"
  let ?now = "asc ''2025-02-03T00:00:00.000Z''"
  let ?g = "regenerateWithFeedback ?r [TextBlock (asc ''# New\<newline>\<newline>new body'')]
      [TextBlock (asc ''new summary'')] ?now"
  have p: "parseArticleContent (asc ''# New\<newline>\<newline>new body'') = (asc ''New'', asc ''new body'')"
    by (simp add: parseArticleContent_def trim_def strip_heading_mark_def is_space_def)
  obtain a where a: "?g = Inr a"
    by (simp add: regenerateWithFeedback_def parseArticleContent_def trim_def
        strip_heading_mark_def is_space_def)
  note k = C10_regenerate_keeps_metadata [THEN conjunct1, THEN mp, OF a]
  have m: "metadata a = \<lparr> issueNumber = 42, tone = asc ''casual'', targetAudience = asc ''devs'',
                       suggestedTags = [asc ''x''] \<rparr>"
    using k by (simp add: example_article_def)
  have t: "title a = asc ''New'' \<and> content a = asc ''new body''"
    using k by (auto simp: p [simplified])
  have s: "summary a = asc ''new summary''"
    using k by simp
  have g: "generatedAt a = ?now"
    using k by blast
  from a m t s g show ?thesis by blast
qed

text \<open>
  C2 as stated fails for one of the two deserialization paths: on a document without
  front matter the loadArticle of the regeneration workflow throws "Invalid article
  format".
\<close>

theorem C2_regenerate_rejects_counterexample:
  "frontmatter_match (asc ''# Notes\<newline>no header here'') = None
   \<and> loadArticle_regenerate (asc ''# Notes\<newline>no header here'') (asc ''2025-01-02T03:04:05.678Z'')
       = Inl InvalidArticleFormat"
  by (simp add: loadArticle_regenerate_def frontmatter_match_def)

text \<open>
  C2 (as amended). A document lacks the expected header delimiters when it is not of the
  form "---", line feed, front matter, line feed, "---", line feed, body. For every such
  document the loadArticle of the export workflow does not fail and returns the degraded
  parse: the title is the first line without a leading "#" and the white space after
  it, the content is the whole document, the summary and the target audience are empty,
  issueNumber is 0, tone is "casual", the tag list is empty, and wordCount is counted
  from the document. The loadArticle of the regeneration workflow rejects such a
  document with the error "Invalid article format".
\<close>

theorem C2_export_degraded_parse:
  "(frontmatter_match text = None \<longleftrightarrow>
      \<not> (\<exists>fm body. text = asc ''---\<newline>'' @ fm @ asc ''\<newline>---\<newline>'' @ body))
   \<and> (frontmatter_match text = None \<longrightarrow>
        loadArticle_export text now =
          \<lparr> title = strip_hash (hd (split_on 10 text)), content = text, summary = [],
            wordCount = countCharacters text, generatedAt = now,
            metadata = \<lparr> issueNumber = 0, tone = asc ''casual'', targetAudience = [],
                         suggestedTags = [] \<rparr> \<rparr>
        \<and> loadArticle_regenerate text now = Inl InvalidArticleFormat)
   \<and> (\<forall>l. strip_hash (35 # l) = dropWhile is_space l)
   \<and> (\<forall>l. \<not> prefix [35] l \<longrightarrow> strip_hash l = l)"
proof (intro conjI impI allI)
  show "frontmatter_match text = None \<longleftrightarrow>
      \<not> (\<exists>fm body. text = asc ''---\<newline>'' @ fm @ asc ''\<newline>---\<newline>'' @ body)"
    by (rule frontmatter_match_None_iff)
next
  assume n: "frontmatter_match text = None"
  obtain l0 rest where ls: "split_on 10 text = l0 # rest"
    using split_on_nonempty [of 10 "text"] by (cases "split_on 10 text") auto
  show "loadArticle_export text now =
          \<lparr> title = strip_hash (hd (split_on 10 text)), content = text, summary = [],
            wordCount = countCharacters text, generatedAt = now,
            metadata = \<lparr> issueNumber = 0, tone = asc ''casual'', targetAudience = [],
                         suggestedTags = [] \<rparr> \<rparr>"
    by (simp add: loadArticle_export_def n ls)
  show "loadArticle_regenerate text now = Inl InvalidArticleFormat"
    by (simp add: loadArticle_regenerate_def n)
next
  fix l :: jstring show "strip_hash (35 # l) = dropWhile is_space l"
    by (simp add: strip_hash_def)
next
  fix l :: jstring assume "\<not> prefix [35] l" then show "strip_hash l = l"
    by (simp add: strip_hash_def)
qed

theorem C2_export_degraded_parse_witness:
  "frontmatter_match (asc ''# Notes\<newline>no header here'') = None
   \<and> loadArticle_export (asc ''# Notes\<newline>no header here'') (asc ''2025-01-02T03:04:05.678Z'') =
       \<lparr> title = asc ''Notes'', content = asc ''# Notes\<newline>no header here'', summary = [],
         wordCount = 18, generatedAt = asc ''2025-01-02T03:04:05.678Z'',
         metadata = \<lparr> issueNumber = 0, tone = asc ''casual'', targetAudience = [],
                      suggestedTags = [] \<rparr> \<rparr>"
proof -
  let ?t = "asc ''# Notes\<newline>no header here''"
  have n: "frontmatter_match ?t = None"
    by (simp add: frontmatter_match_def)
  have e: "strip_hash (hd (split_on 10 ?t)) = asc ''Notes''" "countCharacters ?t = 18"
    by (simp_all add: strip_hash_def countCharacters_def is_space_def)
  show ?thesis
    using C2_export_degraded_parse [of ?t, THEN conjunct2, THEN conjunct1, THEN mp, OF n, THEN conjunct1]
      n unfolding e by (intro conjI)
qed

text \<open>
  C1 as stated fails: a summary of two lines is written on two lines of the header block,
  where the loader's pattern for the summary, which stays on one line, finds no closing
  quote; the summary reads back empty. Title and content are not empty.
\<close>

theorem C1_roundtrip_counterexample:
  "title (example_article (asc ''T'') (asc ''c d'') (asc ''one\<newline>two'') []) \<noteq> []
   \<and> content (example_article (asc ''T'') (asc ''c d'') (asc ''one\<newline>two'') []) \<noteq> []
   \<and> (\<exists>b. loadArticle_regenerate
            (saveArticleAsMarkdown (example_article (asc ''T'') (asc ''c d'') (asc ''one\<newline>two'') []))
            (asc ''2025-01-02T03:04:05.678Z'') = Inr b
          \<and> summary b = []
          \<and> summary b \<noteq> summary (example_article (asc ''T'') (asc ''c d'') (asc ''one\<newline>two'') []))"
proof -
  let ?a = "example_article (asc ''T'') (asc ''c d'') (asc ''one\<newline>two'') []"
  let ?now = "asc ''2025-01-02T03:04:05.678Z''"
  define ls where \<open>ls = [asc ''title: "T"'', asc ''summary: "one'', asc ''two"'', asc ''tags: []'',
      asc ''issueNumber: 42'', asc ''generatedAt: "2025-01-02T03:04:05.678Z"'', asc ''wordCount: 2'',
      asc ''tone: "casual"'', asc ''targetAudience: "devs"'']\<close>
  define B where "B = asc ''\<newline># T\<newline>\<newline>c d\<newline>\<newline>---\<newline>\<newline>'' @ footer_line @ [10]"
  have hl: "join [10] (header_lines ?a) = join [10] ls"
    by (simp add: header_lines_def example_article_def escape_quotes_def show_nat.simps
        countCharacters_def is_space_def ls_def)
  have doc: "saveArticleAsMarkdown ?a = asc ''---\<newline>'' @ join [10] ls @ asc ''\<newline>---\<newline>'' @ B"
    unfolding saveArticleAsMarkdown_def hl by (simp add: example_article_def B_def)
  have "ls \<noteq> []" "\<forall>l\<in>set ls. 10 \<notin> set l" "\<forall>l\<in>set (tl ls). l \<noteq> [] \<and> hd l \<noteq> 45"
    by (simp_all add: ls_def)
  then have "split_at_first (asc ''\<newline>---\<newline>'') (join [10] ls @ asc ''\<newline>---\<newline>'' @ B)
      = Some (join [10] ls, B)"
    by (rule split_at_first_lines)
  then have fm: "frontmatter_match (saveArticleAsMarkdown ?a) = Some (join [10] ls, B)"
    unfolding doc frontmatter_match_def by simp
  have \<open>\<forall>p\<in>set ls. match_field (asc ''summary: "'') 34 p = None\<close>
    by (simp add: ls_def capture_to_last_def is_line_terminator_def)
  then have \<open>match_field (asc ''summary: "'') 34 (join [10] ls) = None\<close>
    by (intro match_field_lines_none) simp_all
  then have s: "field_summary (join [10] ls) = []"
    by (simp add: field_summary_def or_str_def)
  obtain b where b: "loadArticle_regenerate (saveArticleAsMarkdown ?a) ?now = Inr b"
    and sb: "summary b = field_summary (join [10] ls)"
    unfolding loadArticle_regenerate_def fm by (simp add: Let_def)
  have 1: "title ?a \<noteq> []" and 2: "content ?a \<noteq> []" and 3: "summary ?a \<noteq> []"
    by (simp_all add: example_article_def)
  from b sb s 3 have "\<exists>b. loadArticle_regenerate (saveArticleAsMarkdown ?a) ?now = Inr b
          \<and> summary b = [] \<and> summary b \<noteq> summary ?a"
    by (intro exI [of _ b]) simp
  with 1 2 show ?thesis by (intro conjI)
qed

text \<open>
  C1 (as amended). For every GeneratedArticle A whose header block reads back as written
  (\<open>header_safe\<close>: title, summary, tone and targetAudience on one line each; no double
  quote in the summary; no label of a later header field inside the title or the
  summary; no colon or line feed in a tag; a non-empty tone; a safe-integer issue
  number), loading the document that saveArticleAsMarkdown writes for A, with the
  loadArticle of the regeneration workflow, succeeds and reproduces A's title, tone,
  targetAudience, issueNumber and summary. For every GeneratedArticle whatever, that
  load succeeds and yields a wordCount equal to the number of non-white-space characters
  of the content it yields.
\<close>

theorem C1_roundtrip:
  "(header_safe a \<longrightarrow>
      (\<exists>b. loadArticle_regenerate (saveArticleAsMarkdown a) now = Inr b
         \<and> title b = title a
         \<and> tone (metadata b) = tone (metadata a)
         \<and> targetAudience (metadata b) = targetAudience (metadata a)
         \<and> issueNumber (metadata b) = issueNumber (metadata a)
         \<and> summary b = summary a
         \<and> wordCount b = countCharacters (content b)))
   \<and> (\<exists>b. loadArticle_regenerate (saveArticleAsMarkdown a) now = Inr b
         \<and> wordCount b = countCharacters (content b))"
proof (intro conjI impI)
  assume "header_safe a"
  from load_saved [OF this, of now]
  obtain b where b: "loadArticle_regenerate (saveArticleAsMarkdown a) now = Inr b"
    and f: "title b = title a" "tone (metadata b) = tone (metadata a)"
      "targetAudience (metadata b) = targetAudience (metadata a)"
      "issueNumber (metadata b) = issueNumber (metadata a)" "summary b = summary a"
    by simp
  from b have "wordCount b = countCharacters (content b)"
    by (rule loadArticle_regenerate_wordCount)
  with b f show "\<exists>b. loadArticle_regenerate (saveArticleAsMarkdown a) now = Inr b
         \<and> title b = title a
         \<and> tone (metadata b) = tone (metadata a)
         \<and> targetAudience (metadata b) = targetAudience (metadata a)
         \<and> issueNumber (metadata b) = issueNumber (metadata a)
         \<and> summary b = summary a
         \<and> wordCount b = countCharacters (content b)"
    by blast
next
  obtain b where b: "loadArticle_regenerate (saveArticleAsMarkdown a) now = Inr b"
    using save_has_frontmatter [of a]
    by (auto simp: loadArticle_regenerate_def Let_def)
  then have "wordCount b = countCharacters (content b)"
    by (rule loadArticle_regenerate_wordCount)
  with b show "\<exists>b. loadArticle_regenerate (saveArticleAsMarkdown a) now = Inr b
         \<and> wordCount b = countCharacters (content b)"
    by blast
qed

theorem C1_roundtrip_witness:
  \<open>header_safe (example_article (asc ''On "tone": part 1'') (asc ''Body text.'')
       (asc ''A summary: short.'') [asc ''ai'', asc ''dev tools''])
   \<and> (\<exists>b. loadArticle_regenerate
          (saveArticleAsMarkdown (example_article (asc ''On "tone": part 1'') (asc ''Body text.'')
             (asc ''A summary: short.'') [asc ''ai'', asc ''dev tools'']))
          (asc ''2025-03-04T05:06:07.890Z'') = Inr b
        \<and> title b = asc ''On "tone": part 1''
        \<and> tone (metadata b) = asc ''casual''
        \<and> targetAudience (metadata b) = asc ''devs''
        \<and> issueNumber (metadata b) = 42
        \<and> summary b = asc ''A summary: short.''
        \<and> wordCount b = countCharacters (content b))\<close>
proof -
  let ?a = \<open>example_article (asc ''On "tone": part 1'') (asc ''Body text.'')
       (asc ''A summary: short.'') [asc ''ai'', asc ''dev tools'']\<close>
  have h: "header_safe ?a"
    by (simp add: header_safe_def example_article_def single_line_def is_line_terminator_def
        iso_char_def is_digit_def)
  have v: \<open>title ?a = asc ''On "tone": part 1''\<close> "tone (metadata ?a) = asc ''casual''"
    "targetAudience (metadata ?a) = asc ''devs''" "issueNumber (metadata ?a) = 42"
    "summary ?a = asc ''A summary: short.''"
    by (simp_all add: example_article_def)
  from C1_roundtrip [of ?a "asc ''2025-03-04T05:06:07.890Z''", THEN conjunct1, THEN mp, OF h]
  show ?thesis unfolding v using h by (intro conjI)
qed


end
